theory Spec2Isabelle
  imports Complex_Main "HOL-Library.Option_ord"
begin

section \<open>Batched beam-search generation (negotiation/neural/generator.py)\<close>

text \<open>
  The development embeds \<^verbatim>\<open>Generator.generate_batch\<close> and \<^verbatim>\<open>Generator._from_beam\<close>.
  Tensors are lists indexed by their batch dimension; the tensor library's other
  dimensions are the element type. Floating-point log-probabilities and attention
  weights are exact rationals, and a score is a rational or minus infinity
  (\<open>None\<close>, the least element of the option order).
\<close>

subsection \<open>Errors and scores\<close>

datatype error =
  UnboundLocalError | AttributeError | IndexError | KeyError
  | ContractViolation | ShapeMismatch

type_synonym score = "rat option"
type_synonym token = nat
type_synonym attn_vec = "rat list"

fun add_score :: "score \<Rightarrow> score \<Rightarrow> score" where
  "add_score (Some a) (Some b) = Some (a + b)"
| "add_score _ _ = None"

text \<open>Ranking by score, best first; among equal scores the earlier element stays first
  (the stable order of Python's \<^verbatim>\<open>sort\<close> and of a top-k by flattened index).\<close>

fun insert_desc :: "('a \<Rightarrow> score) \<Rightarrow> 'a \<Rightarrow> 'a list \<Rightarrow> 'a list" where
  "insert_desc f x [] = [x]"
| "insert_desc f x (y # ys) = (if f y < f x then x # y # ys else y # insert_desc f x ys)"

definition sort_desc :: "('a \<Rightarrow> score) \<Rightarrow> 'a list \<Rightarrow> 'a list" where
  "sort_desc f xs = foldl (\<lambda>acc x. insert_desc f x acc) [] xs"

fun sorted_desc :: "score list \<Rightarrow> bool" where
  "sorted_desc [] = True"
| "sorted_desc [x] = True"
| "sorted_desc (x # y # ys) = (y \<le> x \<and> sorted_desc (y # ys))"

subsection \<open>The hypothesis beam (neural/beam.py)\<close>

text \<open>
  Modelled from the spec: the class \<^verbatim>\<open>Beam\<close> of \<^verbatim>\<open>neural/beam.py\<close>, which the
  generator imports and whose source is not part of the files at hand. Fields and
  operations follow the spec's data model and the contract of its section on the
  hypothesis beam. \<open>tokens\<close>, \<open>backpointers\<close> and \<open>attn\<close> hold one entry per completed
  step; step \<open>t\<close> (counted from 1) is entry \<open>t - 1\<close>. A finished hypothesis is
  (step, slot, normalized score).
\<close>

record beam =
  beam_width :: nat
  beam_n_best :: nat
  global_scorer_b :: "(score \<Rightarrow> nat \<Rightarrow> score) option"
  pad_id :: token
  bos_id :: token
  eos_id :: token
  min_length_b :: nat
  tokens :: "token list list"
  backpointers :: "nat list list"
  scores_b :: "score list"
  attn_b :: "attn_vec list list"
  finished :: "(nat \<times> nat \<times> score) list"
  eos_top :: bool

text \<open>Modelled from the spec: the constructor \<^verbatim>\<open>Beam(size, n_best, global_scorer, pad, bos,
  eos, min_length)\<close>. No step has been taken, every slot has cumulative score 0.\<close>

definition Beam ::
  "nat \<Rightarrow> nat \<Rightarrow> (score \<Rightarrow> nat \<Rightarrow> score) option \<Rightarrow> token \<Rightarrow> token \<Rightarrow> token \<Rightarrow> nat \<Rightarrow> beam" where
  "Beam sz nb gs pad bos eos ml =
     \<lparr>beam_width = sz, beam_n_best = nb, global_scorer_b = gs, pad_id = pad, bos_id = bos,
      eos_id = eos, min_length_b = ml, tokens = [], backpointers = [],
      scores_b = replicate sz (Some 0), attn_b = [], finished = [], eos_top = False\<rparr>"

text \<open>Modelled from the spec: the scorer policy. The default (no scorer given) returns the
  raw cumulative log-probability.\<close>

definition normalized :: "beam \<Rightarrow> score \<Rightarrow> nat \<Rightarrow> score" where
  "normalized b s len = (case global_scorer_b b of None \<Rightarrow> s | Some f \<Rightarrow> f s len)"

text \<open>Modelled from the spec: \<^verbatim>\<open>current_tokens()\<close>, called \<^verbatim>\<open>get_current_state\<close> by the
  driver. Before the first step all slots hold the beginning-of-sequence token.\<close>

definition get_current_state :: "beam \<Rightarrow> token list" where
  "get_current_state b =
     (if tokens b = [] then replicate (beam_width b) (bos_id b) else last (tokens b))"

text \<open>Modelled from the spec: \<^verbatim>\<open>current_backpointer_indices()\<close>, called
  \<^verbatim>\<open>get_current_origin\<close> by the driver.\<close>

definition get_current_origin :: "beam \<Rightarrow> nat list" where
  "get_current_origin b = (if backpointers b = [] then [] else last (backpointers b))"

text \<open>Modelled from the spec: \<^verbatim>\<open>done()\<close> (\<open>done\<close> is a keyword, hence
  \<open>done_b\<close>). The beam is done once a step put the end-of-sequence token in its top
  slot, or once all slots are finished. The beam is given no step cap; the cap is the
  range of the driver's loop.\<close>

definition done_b :: "beam \<Rightarrow> bool" where
  "done_b b = (eos_top b \<or> (tokens b \<noteq> [] \<and> list_all (\<lambda>t. t = eos_id b) (last (tokens b))))"

text \<open>Modelled from the spec: \<^verbatim>\<open>advance(step_scores, step_attention)\<close>. Calling it on a
  beam that is done is the fatal contract violation; sizes that do not match the beam
  width fail as well. Otherwise: mask end-of-sequence while fewer than \<open>min_length\<close>
  tokens exist, add the prior score of each slot (minus infinity for a slot that has
  finished), rank the flattened candidates (row 0 alone on the first step), keep the top
  \<open>k\<close>, split each index into origin slot and token, record the finished slots and the
  attention of the origins, and mark the beam done when the top slot ends the sequence.\<close>

definition advance :: "score list list \<Rightarrow> attn_vec list \<Rightarrow> beam \<Rightarrow> error + beam" where
  "advance word_probs attn_out b =
     (let k = beam_width b;
          V = (case word_probs of [] \<Rightarrow> 0 | r # _ \<Rightarrow> length r) in
      if done_b b then Inl ContractViolation
      else if k = 0 \<or> length word_probs \<noteq> k \<or> length attn_out \<noteq> k
              \<or> \<not> list_all (\<lambda>r. length r = V) word_probs then Inl ShapeMismatch
      else
        let cur_len = length (tokens b);
            wp = (if cur_len < min_length_b b
                  then map (\<lambda>r. r[eos_id b := None]) word_probs else word_probs);
            prior = (\<lambda>s. if tokens b \<noteq> [] \<and> last (tokens b) ! s = eos_id b
                          then None else scores_b b ! s);
            total = map (\<lambda>s. map (add_score (prior s)) (wp ! s)) [0..<k];
            cand = (if tokens b = [] then total ! 0 else concat total);
            best = take k (sort_desc snd (zip [0..<length cand] cand))
        in if length best < k then Inl ShapeMismatch
           else
             let new_scores = map snd best;
                 origins = map (\<lambda>(i, _). i div V) best;
                 toks = map (\<lambda>(i, _). i mod V) best;
                 step = cur_len + 1;
                 fin = map (\<lambda>s. (step, s, normalized b (new_scores ! s) step))
                         (filter (\<lambda>s. toks ! s = eos_id b) [0..<k])
             in Inr (b\<lparr>tokens := tokens b @ [toks],
                       backpointers := backpointers b @ [origins],
                       scores_b := new_scores,
                       attn_b := attn_b b @ [map (\<lambda>orig. attn_out ! orig) origins],
                       finished := finished b @ fin,
                       eos_top := (eos_top b \<or> toks ! 0 = eos_id b)\<rparr>))"

text \<open>Modelled from the spec: \<^verbatim>\<open>sort_finished(minimum)\<close>. When fewer than \<open>minimum\<close>
  hypotheses finished, the best live unfinished slots of the final step are finished by
  force, in slot order; the hypotheses come back best first, as (scores, (step, slot)s).\<close>

definition live_slots :: "beam \<Rightarrow> nat list" where
  "live_slots b =
     filter (\<lambda>s. get_current_state b ! s \<noteq> eos_id b \<and> scores_b b ! s \<noteq> None)
       [0..<min (beam_width b) (length (scores_b b))]"

definition sort_finished :: "nat \<Rightarrow> beam \<Rightarrow> score list \<times> (nat \<times> nat) list" where
  "sort_finished minimum b =
     (let step = length (tokens b);
          forced = map (\<lambda>s. (step, s, normalized b (scores_b b ! s) step))
                     (take (minimum - length (finished b)) (live_slots b));
          ranked = sort_desc (\<lambda>(t, s, sc). sc) (finished b @ forced)
      in (map (\<lambda>(t, s, sc). sc) ranked, map (\<lambda>(t, s, sc). (t, s)) ranked))"

text \<open>Modelled from the spec: \<^verbatim>\<open>get_hypothesis(step, slot)\<close>, called \<^verbatim>\<open>get_hyp\<close> by the
  driver. It walks the backpointers from the given step down to step 0, one hop per
  step, and yields tokens and attention in forward order; a step or slot that does not
  exist is an index error (\<open>None\<close>).\<close>

fun get_hyp :: "beam \<Rightarrow> nat \<Rightarrow> nat \<Rightarrow> (token list \<times> attn_vec list) option" where
  "get_hyp b 0 s = Some ([], [])"
| "get_hyp b (Suc t) s =
     (if t < length (tokens b) \<and> t < length (backpointers b) \<and> t < length (attn_b b)
         \<and> s < length (tokens b ! t) \<and> s < length (backpointers b ! t)
         \<and> s < length (attn_b b ! t)
      then (case get_hyp b t (backpointers b ! t ! s) of
              None \<Rightarrow> None
            | Some (hyp, att) \<Rightarrow> Some (hyp @ [tokens b ! t ! s], att @ [attn_b b ! t ! s]))
      else None)"

subsection \<open>Batch, vocabulary, model and generator\<close>

text \<open>
  A batch is read only. \<open>decoder_tokens\<close> is \<^verbatim>\<open>batch.context_data['decoder_tokens']\<close>, one
  ground-truth context per item (\<open>None\<close> when absent). \<open>item_title\<close> and \<open>prev_turns\<close> are
  attributes a batch may lack (\<open>None\<close>). \<open>targets\<close> is a list of time steps, each a row of
  one token per batch item.
\<close>

record ('ei, 'pt, 'it) batch =
  batch_size :: nat
  decoder_tokens :: "string list option list"
  encoder_inputs :: 'ei
  lengths :: "nat list"
  item_title :: "'it option"
  prev_turns :: "'pt option"
  targets :: "token list list"

record vocab =
  word_to_ind :: "string \<rightharpoonup> token"

text \<open>The reserved words of \<^verbatim>\<open>preprocess.markers\<close>, a module that is not among the files at
  hand: they are parameters.\<close>

record markers =
  PAD :: string
  EOS :: string

text \<open>The memory handed to the decoder: one memory bank, or the Python list of banks.\<close>

datatype 'm memory = Bank "'m list" | Banks "'m list list"

text \<open>
  The neural model is a parameter. A memory bank, a decoder state, a decoder output and
  an attention tensor are lists with one entry per row of the batch dimension. The
  decoder's second result is the new decoder state, the third is \<^verbatim>\<open>attn["std"]\<close>; for
  the one-token input of a decoding step the leading time dimension of size one is left
  out of its first and third result.
\<close>

record ('ei, 'pt, 'es, 'ps, 'm, 'd, 'o) model =
  encoder :: "'ei \<Rightarrow> nat list \<Rightarrow> 'es \<times> 'm list"
  init_decoder_state :: "'ei \<Rightarrow> 'm list \<Rightarrow> 'es \<Rightarrow> 'd list"
  cbow_embedder :: "'pt \<Rightarrow> 'ps \<times> 'm list"
  decoder :: "token list list \<Rightarrow> 'm memory \<Rightarrow> 'd list \<Rightarrow> nat list
                \<Rightarrow> 'o list \<times> 'd list \<times> attn_vec list"
  generator_forward :: "'o list \<Rightarrow> score list list"

text \<open>The fields of \<^verbatim>\<open>Generator\<close> that \<^verbatim>\<open>generate_batch\<close> reads. Sizes and lengths are
  natural numbers.\<close>

record ('ei, 'pt, 'es, 'ps, 'm, 'd, 'o) generator =
  model :: "('ei, 'pt, 'es, 'ps, 'm, 'd, 'o) model"
  vocab :: vocab
  n_best :: nat
  max_length :: nat
  global_scorer :: "(score \<Rightarrow> nat \<Rightarrow> score) option"
  beam_size :: nat
  min_length :: nat

text \<open>The returned dictionary: \<^verbatim>\<open>_from_beam\<close> creates it with three keys,
  \<^verbatim>\<open>generate_batch\<close> adds \<^verbatim>\<open>"gold_score"\<close> and \<^verbatim>\<open>"batch"\<close>.\<close>

record ('ei, 'pt, 'it) ret =
  predictions :: "token list list list"
  scores :: "score list list"
  attention :: "attn_vec list list list"
  gold_score :: "int list option"
  batch :: "('ei, 'pt, 'it) batch option"

subsection \<open>Python indexing, dictionary lookup, list comprehensions that may raise\<close>

text \<open>\<^verbatim>\<open>xs[i]\<close>: an index below zero counts from the end of the list.\<close>

definition py_index :: "'a list \<Rightarrow> int \<Rightarrow> error + 'a" where
  "py_index xs i =
     (if 0 \<le> i \<and> i < int (length xs) then Inr (xs ! nat i)
      else if i < 0 \<and> - int (length xs) \<le> i then Inr (xs ! nat (int (length xs) + i))
      else Inl IndexError)"

definition lookup :: "('k \<rightharpoonup> 'v) \<Rightarrow> 'k \<Rightarrow> error + 'v" where
  "lookup d k = (case d k of None \<Rightarrow> Inl KeyError | Some v \<Rightarrow> Inr v)"

fun collect :: "('e + 'a) list \<Rightarrow> 'e + 'a list" where
  "collect [] = Inr []"
| "collect (x # xs) =
     (case x of
        Inl e \<Rightarrow> Inl e
      | Inr v \<Rightarrow> (case collect xs of Inl e \<Rightarrow> Inl e | Inr vs \<Rightarrow> Inr (v # vs)))"

subsection \<open>Step (0): one beam per batch item\<close>

text \<open>\<^verbatim>\<open>get_bos(b)\<close>: a padded turn (no context, or an empty one) starts from the padding
  word, any other from the context word at Python index \<open>gt_prefix - 1\<close>.\<close>

definition get_bos ::
  "vocab \<Rightarrow> markers \<Rightarrow> ('ei, 'pt, 'it) batch \<Rightarrow> int \<Rightarrow> nat \<Rightarrow> error + token" where
  "get_bos v mk bt gt_prefix b =
     (if length (decoder_tokens bt) \<le> b then Inl IndexError
      else
        (case (case decoder_tokens bt ! b of
                 None \<Rightarrow> Inr (PAD mk)
               | Some [] \<Rightarrow> Inr (PAD mk)
               | Some tgt_sent \<Rightarrow> py_index tgt_sent (gt_prefix - 1)) of
           Inl e \<Rightarrow> Inl e
         | Inr bos \<Rightarrow> lookup (word_to_ind v) bos))"

definition make_beam ::
  "('ei, 'pt, 'es, 'ps, 'm, 'd, 'o) generator \<Rightarrow> markers \<Rightarrow> ('ei, 'pt, 'it) batch \<Rightarrow> int
     \<Rightarrow> nat \<Rightarrow> error + beam" where
  "make_beam g mk bt gt_prefix b =
     (case lookup (word_to_ind (vocab g)) (PAD mk) of
        Inl e \<Rightarrow> Inl e
      | Inr pad \<Rightarrow>
          (case get_bos (vocab g) mk bt gt_prefix b of
             Inl e \<Rightarrow> Inl e
           | Inr bos \<Rightarrow>
               (case lookup (word_to_ind (vocab g)) (EOS mk) of
                  Inl e \<Rightarrow> Inl e
                | Inr eos \<Rightarrow>
                    Inr (Beam (beam_size g) (n_best g) (global_scorer g) pad bos eos
                           (min_length g)))))"

definition init_beams ::
  "('ei, 'pt, 'es, 'ps, 'm, 'd, 'o) generator \<Rightarrow> markers \<Rightarrow> ('ei, 'pt, 'it) batch \<Rightarrow> int
     \<Rightarrow> error + beam list" where
  "init_beams g mk bt gt_prefix = collect (map (make_beam g mk bt gt_prefix) [0..<batch_size bt])"

subsection \<open>Steps (1) and (2): encoder, context, forced prefix, repetition\<close>

text \<open>
  What a run does is recorded in a log: the forced decoder pass, each entry into the body
  of the decoding loop (step and the beams as they are then), the scores and attention
  the model returns at a decoding step, each call of \<^verbatim>\<open>advance\<close> (step, batch item and
  the beam as it is when called) and each call of \<^verbatim>\<open>beam_update\<close>. An exception
  carries the log written so far.
\<close>

datatype event =
  Forced "token list list"
  | Step nat "beam list"
  | Decode nat "score list list" "attn_vec list"
  | Advance nat nat beam
  | Reindex nat nat "nat list"

text \<open>
  Lines 106 to 113. The source writes the alternative of the \<^verbatim>\<open>if hasattr(batch,
  'prev_turns')\<close> under the keyword \<^verbatim>\<open>except:\<close>; it is read as the else-branch. The
  local variable \<^verbatim>\<open>predict_with_context\<close> is assigned in the first branch alone:
  \<open>None\<close> is the unbound variable.
\<close>

definition context_memory ::
  "('ei, 'pt, 'es, 'ps, 'm, 'd, 'o) generator \<Rightarrow> ('ei, 'pt, 'it) batch \<Rightarrow> 'm list
     \<Rightarrow> error + ('m memory \<times> bool option)" where
  "context_memory g bt enc_memory_bank =
     (case prev_turns bt of
        Some previous_turns \<Rightarrow>
          (case item_title bt of
             None \<Rightarrow> Inl AttributeError
           | Some title \<Rightarrow>
               (let (prev_states, prev_memory_bank) = cbow_embedder (model g) previous_turns
                in Inr (Banks [enc_memory_bank, prev_memory_bank], Some True)))
      | None \<Rightarrow> Inr (Bank enc_memory_bank, None))"

text \<open>Lines 116 to 120: the forced prefix. Only the decoder state of the pass is kept.\<close>

definition forced_prefix ::
  "('ei, 'pt, 'es, 'ps, 'm, 'd, 'o) generator \<Rightarrow> ('ei, 'pt, 'it) batch \<Rightarrow> int \<Rightarrow> 'm memory
     \<Rightarrow> 'd list \<Rightarrow> 'd list \<times> event list" where
  "forced_prefix g bt gt_prefix memory_bank dec_states0 =
     (if gt_prefix > 1
      then (let inp = take (nat (gt_prefix - 1)) (targets bt);
                (dec_out, dec_states1, attn) =
                   decoder (model g) inp memory_bank dec_states0 (lengths bt)
            in (dec_states1, [Forced inp]))
      else (dec_states0, []))"

text \<open>\<^verbatim>\<open>rvar\<close>, \<^verbatim>\<open>lengths.repeat(beam_size)\<close>: the batch dimension is tiled \<open>beam_size\<close>
  times, so row \<open>s * batch_size + j\<close> belongs to slot \<open>s\<close> of item \<open>j\<close>.\<close>

definition rvar :: "nat \<Rightarrow> 'a list \<Rightarrow> 'a list" where
  "rvar k a = concat (replicate k a)"

text \<open>Lines 125 to 128. Reading the unbound \<^verbatim>\<open>predict_with_context\<close> raises. A list of
  banks has no \<^verbatim>\<open>.data\<close>, and a single bank is no list of banks.\<close>

definition repeat_memory :: "nat \<Rightarrow> bool option \<Rightarrow> 'm memory \<Rightarrow> error + 'm memory" where
  "repeat_memory k predict_with_context memory_bank =
     (case predict_with_context of
        None \<Rightarrow> Inl UnboundLocalError
      | Some True \<Rightarrow>
          (case memory_bank of
             Banks bs \<Rightarrow> Inr (Banks (map (rvar k) bs))
           | Bank a \<Rightarrow> Inl AttributeError)
      | Some False \<Rightarrow>
          (case memory_bank of
             Bank a \<Rightarrow> Inr (Bank (rvar k a))
           | Banks bs \<Rightarrow> Inl AttributeError))"

text \<open>Modelled from the spec: the decoder state's \<^verbatim>\<open>repeat(k)\<close> operation, called
  \<^verbatim>\<open>repeat_beam_size_times\<close> by the driver. It belongs to the model library, which is
  not among the files at hand.\<close>

definition repeat_beam_size_times :: "nat \<Rightarrow> 'd list \<Rightarrow> 'd list" where
  "repeat_beam_size_times k ds = concat (replicate k ds)"

text \<open>Modelled from the spec: the decoder state's \<^verbatim>\<open>reorder(indices)\<close> operation, called
  \<^verbatim>\<open>beam_update(idx, positions, beam_size)\<close> by the driver; it belongs to the model
  library as well. The rows of batch item \<open>idx\<close> are the rows \<open>s * batch + idx\<close>; row
  \<open>s\<close> of the item becomes what its row \<open>positions ! s\<close> was. Sizes that do not fit the
  state fail.\<close>

definition beam_update :: "nat \<Rightarrow> nat list \<Rightarrow> nat \<Rightarrow> 'd list \<Rightarrow> error + 'd list" where
  "beam_update idx positions k ds =
     (let bsz = length ds div k in
      if k = 0 \<or> length ds \<noteq> k * bsz \<or> length positions \<noteq> k then Inl ShapeMismatch
      else if bsz \<le> idx \<or> \<not> list_all (\<lambda>p. p < k) positions then Inl IndexError
      else Inr (map (\<lambda>r. if r mod bsz = idx then ds ! ((positions ! (r div bsz)) * bsz + idx)
                          else ds ! r) [0..<length ds]))"

subsection \<open>Step (3): the decoding loop\<close>

record 'd lstate =
  beams :: "beam list"
  dec_states :: "'d list"
  log :: "event list"

text \<open>Lines 179 to 183, for the batch items \<open>js\<close> in order. \<^verbatim>\<open>out[:, j]\<close> and the
  attention of item \<open>j\<close> are the rows \<open>s * batch_size + j\<close> of the unbottled tensors, the
  attention cut to the item's memory length.\<close>

fun advance_beams ::
  "nat \<Rightarrow> nat \<Rightarrow> nat list \<Rightarrow> nat \<Rightarrow> score list list \<Rightarrow> attn_vec list \<Rightarrow> nat list
     \<Rightarrow> 'd lstate \<Rightarrow> (error \<times> event list) + 'd lstate" where
  "advance_beams k bsz memory_lengths i out attn [] st = Inr st"
| "advance_beams k bsz memory_lengths i out attn (j # js) st =
     (if length memory_lengths \<le> j \<or> length (beams st) \<le> j then Inl (IndexError, log st)
      else
        (let b = beams st ! j;
             log1 = log st @ [Advance i j b]
         in case advance (map (\<lambda>s. out ! (s * bsz + j)) [0..<k])
                   (map (\<lambda>s. take (memory_lengths ! j) (attn ! (s * bsz + j))) [0..<k]) b of
              Inl e \<Rightarrow> Inl (e, log1)
            | Inr b' \<Rightarrow>
                (let log2 = log1 @ [Reindex i j (get_current_origin b')]
                 in case beam_update j (get_current_origin b') k (dec_states st) of
                      Inl e \<Rightarrow> Inl (e, log2)
                    | Inr ds \<Rightarrow>
                        advance_beams k bsz memory_lengths i out attn js
                          (st\<lparr>beams := (beams st)[j := b'], dec_states := ds, log := log2\<rparr>))))"

text \<open>Lines 137 to 183: one decoding step. The input is the stacked current tokens,
  transposed and flattened; \<^verbatim>\<open>unbottle\<close> needs \<open>beam_size * batch_size\<close> rows.\<close>

definition decode_step ::
  "('ei, 'pt, 'es, 'ps, 'm, 'd, 'o) generator \<Rightarrow> nat \<Rightarrow> 'm memory \<Rightarrow> nat list \<Rightarrow> nat
     \<Rightarrow> 'd lstate \<Rightarrow> (error \<times> event list) + 'd lstate" where
  "decode_step g bsz memory_bank memory_lengths i st =
     (let inp = [concat (transpose (map get_current_state (beams st)))];
          (dec_out, dec_states1, attn) =
             decoder (model g) inp memory_bank (dec_states st) memory_lengths;
          out = generator_forward (model g) dec_out;
          log1 = log st @ [Decode i out attn]
      in if length out \<noteq> beam_size g * bsz \<or> length attn \<noteq> beam_size g * bsz
         then Inl (ShapeMismatch, log1)
         else advance_beams (beam_size g) bsz memory_lengths i out attn
                [0..<length (beams st)] (st\<lparr>dec_states := dec_states1, log := log1\<rparr>))"

text \<open>Lines 133 to 135: \<^verbatim>\<open>for i in range(self.max_length)\<close>, left as soon as all beams
  are done.\<close>

fun stepping ::
  "('ei, 'pt, 'es, 'ps, 'm, 'd, 'o) generator \<Rightarrow> nat \<Rightarrow> 'm memory \<Rightarrow> nat list \<Rightarrow> nat list
     \<Rightarrow> 'd lstate \<Rightarrow> (error \<times> event list) + 'd lstate" where
  "stepping g bsz memory_bank memory_lengths [] st = Inr st"
| "stepping g bsz memory_bank memory_lengths (i # is) st =
     (if list_all done_b (beams st) then Inr st
      else (case decode_step g bsz memory_bank memory_lengths i
                   (st\<lparr>log := log st @ [Step i (beams st)]\<rparr>) of
              Inl e \<Rightarrow> Inl e
            | Inr st' \<Rightarrow> stepping g bsz memory_bank memory_lengths is st'))"

subsection \<open>Step (4): extraction\<close>

definition from_beam_one ::
  "nat \<Rightarrow> beam \<Rightarrow> error + (token list list \<times> score list \<times> attn_vec list list)" where
  "from_beam_one nb b =
     (let (scs, ks) = sort_finished nb b
      in case collect (map (\<lambda>(times, k). case get_hyp b times k of
                                            None \<Rightarrow> Inl IndexError
                                          | Some h \<Rightarrow> Inr h) (take nb ks)) of
           Inl e \<Rightarrow> Inl e
         | Inr hs \<Rightarrow> Inr (map fst hs, scs, map snd hs))"

text \<open>\<^verbatim>\<open>_from_beam\<close> (an identifier cannot start with an underscore).\<close>

definition from_beam ::
  "('ei, 'pt, 'es, 'ps, 'm, 'd, 'o) generator \<Rightarrow> beam list \<Rightarrow> error + ('ei, 'pt, 'it) ret" where
  "from_beam g beam =
     (case collect (map (from_beam_one (n_best g)) beam) of
        Inl e \<Rightarrow> Inl e
      | Inr rs \<Rightarrow>
          Inr \<lparr>predictions = map fst rs, scores = map (\<lambda>r. fst (snd r)) rs,
               attention = map (\<lambda>r. snd (snd r)) rs, gold_score = None, batch = None\<rparr>)"

subsection \<open>generate_batch\<close>

text \<open>Everything before the loop: the beams, the encoder, the context, the forced prefix
  and the repetition. The result is the memory and the memory lengths of the loop, and
  the state in which the loop starts.\<close>

definition prepare ::
  "('ei, 'pt, 'es, 'ps, 'm, 'd, 'o) generator \<Rightarrow> markers \<Rightarrow> ('ei, 'pt, 'it) batch \<Rightarrow> int
     \<Rightarrow> (error \<times> event list) + ('m memory \<times> nat list \<times> 'd lstate)" where
  "prepare g mk bt gt_prefix =
     (case init_beams g mk bt gt_prefix of
        Inl e \<Rightarrow> Inl (e, [])
      | Inr beam \<Rightarrow>
          (let (enc_states, enc_memory_bank) =
                 encoder (model g) (encoder_inputs bt) (lengths bt);
               dec_states0 =
                 init_decoder_state (model g) (encoder_inputs bt) enc_memory_bank enc_states
           in case context_memory g bt enc_memory_bank of
                Inl e \<Rightarrow> Inl (e, [])
              | Inr (memory_bank, predict_with_context) \<Rightarrow>
                  (let (dec_states1, log1) =
                         forced_prefix g bt gt_prefix memory_bank dec_states0
                   in case repeat_memory (beam_size g) predict_with_context memory_bank of
                        Inl e \<Rightarrow> Inl (e, log1)
                      | Inr memory_bank1 \<Rightarrow>
                          Inr (memory_bank1, rvar (beam_size g) (lengths bt),
                               \<lparr>beams = beam,
                                dec_states = repeat_beam_size_times (beam_size g) dec_states1,
                                log = log1\<rparr>))))"

text \<open>The whole run, with its log.\<close>

definition generate_batch_run ::
  "('ei, 'pt, 'es, 'ps, 'm, 'd, 'o) generator \<Rightarrow> markers \<Rightarrow> ('ei, 'pt, 'it) batch \<Rightarrow> int
     \<Rightarrow> (error \<times> event list) + (('ei, 'pt, 'it) ret \<times> event list)" where
  "generate_batch_run g mk bt gt_prefix =
     (case prepare g mk bt gt_prefix of
        Inl e \<Rightarrow> Inl e
      | Inr (memory_bank, memory_lengths, st0) \<Rightarrow>
          (case stepping g (batch_size bt) memory_bank memory_lengths [0..<max_length g] st0 of
             Inl e \<Rightarrow> Inl e
           | Inr st \<Rightarrow>
               (case from_beam g (beams st) of
                  Inl e \<Rightarrow> Inl (e, log st)
                | Inr r \<Rightarrow>
                    Inr (r\<lparr>gold_score := Some (replicate (batch_size bt) 0),
                           batch := Some bt\<rparr>, log st))))"

definition generate_batch ::
  "('ei, 'pt, 'es, 'ps, 'm, 'd, 'o) generator \<Rightarrow> markers \<Rightarrow> ('ei, 'pt, 'it) batch \<Rightarrow> int
     \<Rightarrow> error + ('ei, 'pt, 'it) ret" where
  "generate_batch g mk bt gt_prefix = map_sum fst fst (generate_batch_run g mk bt gt_prefix)"

definition trace ::
  "('ei, 'pt, 'es, 'ps, 'm, 'd, 'o) generator \<Rightarrow> markers \<Rightarrow> ('ei, 'pt, 'it) batch \<Rightarrow> int
     \<Rightarrow> event list" where
  "trace g mk bt gt_prefix =
     (case generate_batch_run g mk bt gt_prefix of Inl (e, l) \<Rightarrow> l | Inr (r, l) \<Rightarrow> l)"

subsection \<open>Reading a log\<close>

definition log_of :: "(error \<times> event list) + 'd lstate \<Rightarrow> event list" where
  "log_of r = (case r of Inl (e, l) \<Rightarrow> l | Inr st \<Rightarrow> log st)"

fun is_step :: "event \<Rightarrow> bool" where
  "is_step (Step i bs) = True"
| "is_step _ = False"

text \<open>The number of decoding steps a log records: the entries into the loop body.\<close>

definition steps_of :: "event list \<Rightarrow> nat" where
  "steps_of l = length (filter is_step l)"

text \<open>The scores and attention the model returned, step by step, as a log records them.\<close>

fun decodes :: "event list \<Rightarrow> (score list list \<times> attn_vec list) list" where
  "decodes [] = []"
| "decodes (Decode i out attn # es) = (out, attn) # decodes es"
| "decodes (e # es) = decodes es"

text \<open>The beams a run hands to \<^verbatim>\<open>_from_beam\<close> (none when the run fails before).\<close>

definition final_beams ::
  "('ei, 'pt, 'es, 'ps, 'm, 'd, 'o) generator \<Rightarrow> markers \<Rightarrow> ('ei, 'pt, 'it) batch \<Rightarrow> int
     \<Rightarrow> beam list" where
  "final_beams g mk bt gt_prefix =
     (case prepare g mk bt gt_prefix of
        Inl e \<Rightarrow> []
      | Inr (memory_bank, memory_lengths, st0) \<Rightarrow>
          (case stepping g (batch_size bt) memory_bank memory_lengths [0..<max_length g] st0 of
             Inl e \<Rightarrow> []
           | Inr st \<Rightarrow> beams st))"

text \<open>Every call of \<^verbatim>\<open>advance\<close> in a log is made in a loop iteration that was entered with
  some beam not done, on the beam as it was on entry.\<close>

definition justified :: "event list \<Rightarrow> bool" where
  "justified l \<longleftrightarrow>
     (\<forall>n<length l. \<forall>i j b. l ! n = Advance i j b \<longrightarrow>
        (\<exists>m<n. \<exists>bs. l ! m = Step i bs \<and> j < length bs \<and> bs ! j = b \<and> \<not> list_all done_b bs))"

text \<open>The shape a beam keeps from its construction on: one entry of width \<open>beam_width\<close> per
  step in tokens, backpointers and attention, backpointers that are slots, and finished
  hypotheses that name a step taken and a slot.\<close>

definition wf_beam :: "beam \<Rightarrow> bool" where
  "wf_beam b \<longleftrightarrow>
     length (backpointers b) = length (tokens b) \<and> length (attn_b b) = length (tokens b)
     \<and> length (scores_b b) = beam_width b
     \<and> (\<forall>t < length (tokens b).
           length (tokens b ! t) = beam_width b \<and> length (backpointers b ! t) = beam_width b
           \<and> length (attn_b b ! t) = beam_width b
           \<and> (\<forall>s < beam_width b. backpointers b ! t ! s < beam_width b))
     \<and> (\<forall>(t, s, sc) \<in> set (finished b). t \<le> length (tokens b) \<and> s < beam_width b)"

subsection \<open>One item of a batch\<close>

text \<open>The call of \<^verbatim>\<open>advance\<close> at line 180 for item \<open>j\<close>, given the outputs \<open>d\<close> of a step; and
  the beam of item \<open>j\<close> after the steps whose outputs are \<open>ds\<close>.\<close>

definition beam_step ::
  "nat \<Rightarrow> nat \<Rightarrow> nat list \<Rightarrow> nat \<Rightarrow> score list list \<times> attn_vec list \<Rightarrow> beam \<Rightarrow> error + beam" where
  "beam_step k bsz ml j d b =
     advance (map (\<lambda>s. fst d ! (s * bsz + j)) [0..<k])
       (map (\<lambda>s. take (ml ! j) (snd d ! (s * bsz + j))) [0..<k]) b"

fun replay_item ::
  "nat \<Rightarrow> nat \<Rightarrow> nat list \<Rightarrow> nat \<Rightarrow> (score list list \<times> attn_vec list) list \<Rightarrow> beam \<Rightarrow> beam" where
  "replay_item k bsz ml j [] b = b"
| "replay_item k bsz ml j (d # ds) b =
     (case beam_step k bsz ml j d b of Inl e \<Rightarrow> b | Inr b' \<Rightarrow> replay_item k bsz ml j ds b')"

text \<open>The configuration of a generator: all its fields but the model.\<close>

definition config ::
  "('ei, 'pt, 'es, 'ps, 'm, 'd, 'o) generator
     \<Rightarrow> vocab \<times> nat \<times> nat \<times> (score \<Rightarrow> nat \<Rightarrow> score) option \<times> nat \<times> nat" where
  "config g = (vocab g, n_best g, max_length g, global_scorer g, beam_size g, min_length g)"

text \<open>Slice-wise agreement of the model outputs of a batched run (row \<open>s * bsz + j\<close> is slot
  \<open>s\<close> of item \<open>j\<close>) with those of a run on one item (row \<open>s\<close>), at one step and at every
  step both runs take.\<close>

definition agree ::
  "nat \<Rightarrow> nat \<Rightarrow> nat \<Rightarrow> score list list \<times> attn_vec list \<Rightarrow> score list list \<times> attn_vec list
     \<Rightarrow> bool" where
  "agree k bsz j d d1 =
     list_all (\<lambda>s. fst d ! (s * bsz + j) = fst d1 ! s \<and> snd d ! (s * bsz + j) = snd d1 ! s)
       [0..<k]"

definition outputs_agree ::
  "nat \<Rightarrow> nat \<Rightarrow> nat \<Rightarrow> (score list list \<times> attn_vec list) list
     \<Rightarrow> (score list list \<times> attn_vec list) list \<Rightarrow> bool" where
  "outputs_agree k bsz j ds ds1 = list_all (\<lambda>(d, d1). agree k bsz j d d1) (zip ds ds1)"

text \<open>The batch \<open>bt1\<close> holds item \<open>j\<close> of \<open>bt\<close> alone: its context and its source length. What
  else the model reads of a batch shows in its outputs only.\<close>

definition item_of :: "('ei, 'pt, 'it) batch \<Rightarrow> nat \<Rightarrow> ('ei, 'pt, 'it) batch \<Rightarrow> bool" where
  "item_of bt j bt1 =
     (j < batch_size bt \<and> batch_size bt1 = 1
      \<and> j < length (decoder_tokens bt) \<and> decoder_tokens bt1 = [decoder_tokens bt ! j]
      \<and> j < length (lengths bt) \<and> lengths bt1 = [lengths bt ! j])"

subsection \<open>A small model for concrete runs\<close>

text \<open>
  Vocabulary: padding 0, start 1, end of sequence 2, hello 3, bye 4. The example model
  scores the next word from the current one: after hello or bye the end of sequence is
  most likely (more so after bye), after anything else hello, then bye. The decoder state
  of a row is the list of the tokens fed to it, attention is constant.
\<close>

definition row_after :: "token \<Rightarrow> score list" where
  "row_after t =
     (if t = 3 then [Some (- 9), Some (- 9), Some (- 5), Some (- 6), Some (- 7)]
      else if t = 4 then [Some (- 9), Some (- 9), Some (- 1), Some (- 5), Some (- 6)]
      else [Some (- 9), Some (- 9), Some (- 7), Some (- 1), Some (- 3)])"

definition ex_model :: "(nat list, nat list, unit, unit, nat, token list, token) model" where
  "ex_model =
     \<lparr>encoder = (\<lambda>ei ls. ((), ei)),
      init_decoder_state = (\<lambda>ei mem es. map (\<lambda>x. []) mem),
      cbow_embedder = (\<lambda>pt. ((), pt)),
      decoder = (\<lambda>inp mem ds ml.
         (last inp, map (\<lambda>(d, t). d @ [t]) (zip ds (last inp)),
          map (\<lambda>t. [1 / 2, 1 / 2, 0]) (last inp))),
      generator_forward = map row_after\<rparr>"

definition ex_vocab :: vocab where
  "ex_vocab =
     \<lparr>word_to_ind = [''<pad>'' \<mapsto> 0, ''<go>'' \<mapsto> 1, ''</s>'' \<mapsto> 2, ''hello'' \<mapsto> 3,
                     ''bye'' \<mapsto> 4]\<rparr>"

definition ex_markers :: markers where
  "ex_markers = \<lparr>PAD = ''<pad>'', EOS = ''</s>''\<rparr>"

definition ex_gen ::
  "nat \<Rightarrow> nat \<Rightarrow> nat \<Rightarrow> (nat list, nat list, unit, unit, nat, token list, token) generator" where
  "ex_gen k nb ml =
     \<lparr>model = ex_model, vocab = ex_vocab, n_best = nb, max_length = ml, global_scorer = None,
      beam_size = k, min_length = 0\<rparr>"

text \<open>A batch with the given contexts, every optional attribute present.\<close>

definition ex_batch :: "string list option list \<Rightarrow> (nat list, nat list, unit) batch" where
  "ex_batch ctx =
     \<lparr>batch_size = length ctx, decoder_tokens = ctx, encoder_inputs = map (\<lambda>x. 7) ctx,
      lengths = map (\<lambda>x. 2) ctx, item_title = Some (), prev_turns = Some (map (\<lambda>x. 8) ctx),
      targets = [map (\<lambda>x. 1) ctx, map (\<lambda>x. 3) ctx]\<rparr>"

text \<open>A second model with the scores and attention of the first, and no decoder state to
  speak of.\<close>

definition ex_model_stateless :: "(nat list, nat list, unit, unit, nat, unit, token) model" where
  "ex_model_stateless =
     \<lparr>encoder = (\<lambda>ei ls. ((), ei)),
      init_decoder_state = (\<lambda>ei mem es. map (\<lambda>x. ()) mem),
      cbow_embedder = (\<lambda>pt. ((), pt)),
      decoder = (\<lambda>inp mem ds ml. (last inp, ds, map (\<lambda>t. [1 / 2, 1 / 2, 0]) (last inp))),
      generator_forward = map row_after\<rparr>"

definition ex_gen_stateless ::
  "nat \<Rightarrow> nat \<Rightarrow> nat \<Rightarrow> (nat list, nat list, unit, unit, nat, unit, token) generator" where
  "ex_gen_stateless k nb ml =
     \<lparr>model = ex_model_stateless, vocab = ex_vocab, n_best = nb, max_length = ml,
      global_scorer = None, beam_size = k, min_length = 0\<rparr>"

text \<open>A state whose only beam is done: its first step put the end of sequence on top.\<close>

definition ex_done_state :: "token list lstate" where
  "ex_done_state =
     \<lparr>beams = [(Beam 1 1 None 0 3 2 0)\<lparr>tokens := [[2]], backpointers := [[0]],
                 scores_b := [Some (- 1)], attn_b := [[[1 / 2, 1 / 2]]],
                 finished := [(1, 0, Some (- 1))], eos_top := True\<rparr>],
      dec_states = [[3]], log = []\<rparr>"

text \<open>A state after one step of a two-item batch with beam size 2. The first beam holds
  hello and bye, the second bye and padding; the four state rows are told apart.\<close>

definition ex_mid_state :: "token list lstate" where
  "ex_mid_state =
     \<lparr>beams =
        [(Beam 2 1 None 0 0 2 0)\<lparr>tokens := [[3, 4]], backpointers := [[0, 0]],
            scores_b := [Some (- 1), Some (- 3)],
            attn_b := [[[1 / 2, 1 / 2], [1 / 2, 1 / 2]]]\<rparr>,
         (Beam 2 1 None 0 0 2 0)\<lparr>tokens := [[4, 0]], backpointers := [[0, 0]],
            scores_b := [Some (- 1), Some (- 3)],
            attn_b := [[[1 / 2, 1 / 2], [1 / 2, 1 / 2]]]\<rparr>],
      dec_states = [[10], [11], [12], [13]], log = []\<rparr>"

section \<open>Properties\<close>

subsection \<open>The returned dictionary\<close>

lemma generate_batch_Inr:
  "generate_batch g mk bt p = Inr r \<Longrightarrow>
     \<exists>m ml st0 st r0. prepare g mk bt p = Inr (m, ml, st0)
       \<and> stepping g (batch_size bt) m ml [0..<max_length g] st0 = Inr st
       \<and> from_beam g (beams st) = Inr r0
       \<and> r = r0\<lparr>gold_score := Some (replicate (batch_size bt) 0), batch := Some bt\<rparr>"
  unfolding generate_batch_def generate_batch_run_def
  by (auto split: sum.splits prod.splits)

text \<open>
  C10. Whenever \<^verbatim>\<open>generate_batch\<close> returns, the dictionary has the entry
  \<^verbatim>\<open>"gold_score"\<close>, a list of \<open>batch_size\<close> zeros whatever the model and the batch hold,
  and the entry \<^verbatim>\<open>"batch"\<close>, the input batch.
\<close>

theorem gold_score_and_batch:
  "generate_batch g mk bt p = Inr r \<Longrightarrow>
     gold_score r = Some (replicate (batch_size bt) 0) \<and> batch r = Some bt"
  by (drule generate_batch_Inr) auto

lemma ex_run_two_items:
  "generate_batch (ex_gen 2 1 4) ex_markers (ex_batch [None, Some []]) 1 =
     Inr \<lparr>predictions = [[[4, 2]], [[4, 2]]],
          scores = [[Some (- 4), Some (- 6)], [Some (- 4), Some (- 6)]],
          attention = [[[[1 / 2, 1 / 2], [1 / 2, 1 / 2]]], [[[1 / 2, 1 / 2], [1 / 2, 1 / 2]]]],
          gold_score = Some [0, 0], batch = Some (ex_batch [None, Some []])\<rparr>"
  by code_simp

theorem gold_score_and_batch_witness:
  "\<exists>r. generate_batch (ex_gen 2 1 4) ex_markers (ex_batch [None, Some []]) 1 = Inr r
     \<and> gold_score r = Some [0, 0] \<and> batch r = Some (ex_batch [None, Some []])"
  using gold_score_and_batch [OF ex_run_two_items] ex_run_two_items
  by (simp add: ex_batch_def)

subsection \<open>A batch without previous turns\<close>

lemma repeat_memory_unbound: "repeat_memory k None m = Inl UnboundLocalError"
  by (simp add: repeat_memory_def)

lemma prepare_without_prev_turns:
  "prev_turns bt = None \<Longrightarrow> \<exists>e l. prepare g mk bt p = Inl (e, l)"
  unfolding prepare_def context_memory_def
  by (auto simp: repeat_memory_unbound Let_def split: sum.splits prod.splits)

lemma generate_batch_without_prev_turns:
  "prev_turns bt = None \<Longrightarrow> \<exists>e. generate_batch g mk bt p = Inl e"
  using prepare_without_prev_turns [of bt g mk p]
  unfolding generate_batch_def generate_batch_run_def by auto

lemma unbound_after_beams:
  "prev_turns bt = None \<Longrightarrow> init_beams g mk bt p = Inr bs \<Longrightarrow>
     generate_batch g mk bt p = Inl UnboundLocalError"
  unfolding generate_batch_def generate_batch_run_def prepare_def context_memory_def
  by (auto simp: repeat_memory_unbound Let_def split: sum.splits prod.splits)

text \<open>With its previous turns a batch is decoded with both memory banks, each repeated
  \<open>beam_size\<close> times.\<close>

lemma memory_with_prev_turns:
  assumes "prepare g mk bt p = Inr (m, ml, st)"
  shows "\<exists>pt. prev_turns bt = Some pt
     \<and> m = Banks [rvar (beam_size g) (snd (encoder (model g) (encoder_inputs bt) (lengths bt))),
                    rvar (beam_size g) (snd (cbow_embedder (model g) pt))]"
  using assms unfolding prepare_def context_memory_def forced_prefix_def repeat_memory_def
  by (auto simp: Let_def split: sum.splits prod.splits option.splits bool.splits if_splits)

text \<open>
  C2. A batch that lacks \<^verbatim>\<open>prev_turns\<close> does not complete: the fallback branch leaves
  \<^verbatim>\<open>predict_with_context\<close> unbound and the read at line 125 raises. Here for the two-item
  example batch without its previous turns.
\<close>

theorem missing_prev_turns_raises:
  "generate_batch (ex_gen 2 1 4) ex_markers ((ex_batch [None, Some []])\<lparr>prev_turns := None\<rparr>) 1
     = Inl UnboundLocalError"
  by code_simp

subsection \<open>The bound of the decoding loop\<close>

lemma log_of_simps [simp]: "log_of (Inl (e, l)) = l" "log_of (Inr st) = log st"
  by (simp_all add: log_of_def)

lemma steps_of_append [simp]: "steps_of (l @ l') = steps_of l + steps_of l'"
  by (simp add: steps_of_def)

lemma steps_of_Cons [simp]:
  "steps_of [] = 0" "steps_of (e # l) = (if is_step e then 1 else 0) + steps_of l"
  by (simp_all add: steps_of_def)

lemma steps_advance_beams:
  "steps_of (log_of (advance_beams k bsz ml i out attn js st)) = steps_of (log st)"
proof (induction js arbitrary: st)
  case Nil
  then show ?case by simp
next
  case (Cons j js)
  show ?case
    by (simp add: Let_def Cons.IH split: sum.splits)
qed

lemma steps_decode_step:
  "steps_of (log_of (decode_step g bsz m ml i st)) = steps_of (log st)"
  unfolding decode_step_def
  by (simp add: Let_def steps_advance_beams split: prod.splits)

lemma steps_stepping:
  "steps_of (log_of (stepping g bsz m ml is st)) \<le> steps_of (log st) + length is"
proof (induction "is" arbitrary: st)
  case Nil
  then show ?case by simp
next
  case (Cons i "is")
  show ?case
  proof (cases "list_all done_b (beams st)")
    case True
    then show ?thesis by simp
  next
    case False
    let ?st1 = "st\<lparr>log := log st @ [Step i (beams st)]\<rparr>"
    have d: "steps_of (log_of (decode_step g bsz m ml i ?st1)) = steps_of (log st) + 1"
      by (simp add: steps_decode_step)
    show ?thesis
    proof (cases "decode_step g bsz m ml i ?st1")
      case (Inl e)
      with d False show ?thesis by (cases e) simp
    next
      case (Inr st2)
      with d have "steps_of (log st2) = steps_of (log st) + 1" by simp
      with Cons.IH [of st2] Inr False show ?thesis by simp
    qed
  qed
qed

lemma steps_prepare:
  "steps_of (case prepare g mk bt p of Inl (e, l) \<Rightarrow> l | Inr (m, ml, st) \<Rightarrow> log st) = 0"
  unfolding prepare_def forced_prefix_def
  by (simp add: Let_def split: sum.splits prod.splits)

lemma steps_trace: "steps_of (trace g mk bt p) \<le> max_length g"
proof (cases "prepare g mk bt p")
  case (Inl e)
  with steps_prepare [of g mk bt p] show ?thesis
    by (cases e) (simp add: trace_def generate_batch_run_def)
next
  case (Inr x)
  obtain m ml st0 where x: "x = (m, ml, st0)" by (cases x) auto
  with Inr steps_prepare [of g mk bt p] have z: "steps_of (log st0) = 0" by simp
  from steps_stepping [of g "batch_size bt" m ml "[0..<max_length g]" st0] z
  have s: "steps_of (log_of (stepping g (batch_size bt) m ml [0..<max_length g] st0))
             \<le> max_length g"
    by simp
  show ?thesis
  proof (cases "stepping g (batch_size bt) m ml [0..<max_length g] st0")
    case (Inl e)
    with s Inr x show ?thesis by (cases e) (simp add: trace_def generate_batch_run_def)
  next
    case st: (Inr st)
    with s Inr x show ?thesis
      by (simp add: trace_def generate_batch_run_def split: sum.splits)
  qed
qed

text \<open>
  C6. A run of \<^verbatim>\<open>generate_batch\<close>, finished or aborted, enters the body of the decoding
  loop at most \<open>max_length\<close> times, for any batch and any model; and the loop, reached
  with every beam done, returns at once with the state as it is, whatever steps remain.
\<close>

theorem stepping_bounded:
  "steps_of (trace g mk bt p) \<le> max_length g
     \<and> (list_all done_b (beams st) \<longrightarrow> stepping g bsz m ml rest st = Inr st)"
  using steps_trace by (cases rest) auto

lemma ex_steps:
  "steps_of (trace (ex_gen 2 1 4) ex_markers (ex_batch [None, Some []]) 1) = 2"
  "steps_of (trace (ex_gen 2 1 1) ex_markers (ex_batch [None, Some []]) 1) = 1"
  by code_simp+

theorem stepping_bounded_witness:
  "steps_of (trace (ex_gen 1 1 4) ex_markers (ex_batch [Some [''hello'']]) 1)
     \<le> max_length (ex_gen 1 1 4 :: (nat list, nat list, unit, unit, nat, token list, token) generator)
   \<and> list_all done_b (beams ex_done_state)
   \<and> stepping (ex_gen 1 1 4) 1 (Banks [[7], [8]]) [2] [1, 2, 3] ex_done_state = Inr ex_done_state"
proof -
  have d: "list_all done_b (beams ex_done_state)"
    by (simp add: ex_done_state_def done_b_def)
  from stepping_bounded [where g = "ex_gen 1 1 4" and mk = ex_markers
      and bt = "ex_batch [Some [''hello'']]" and p = 1 and st = ex_done_state and bsz = 1
      and m = "Banks [[7], [8]]" and ml = "[2]" and rest = "[1, 2, 3]"] d
  show ?thesis by blast
qed

subsection \<open>The beams and the decoder state the loop starts from\<close>

lemma collect_Inr:
  "collect ys = Inr xs \<Longrightarrow> length xs = length ys \<and> (\<forall>j < length ys. ys ! j = Inr (xs ! j))"
proof (induction ys arbitrary: xs)
  case Nil
  then show ?case by simp
next
  case (Cons y ys)
  then obtain v vs where y: "y = Inr v" and vs: "collect ys = Inr vs" and xs: "xs = v # vs"
    by (auto split: sum.splits)
  from Cons.IH [OF vs] y xs show ?case
    by (auto simp: nth_Cons split: nat.splits)
qed

lemma init_beams_Inr:
  assumes "init_beams g mk bt p = Inr bs"
  shows "length bs = batch_size bt"
    and "j < batch_size bt \<Longrightarrow> make_beam g mk bt p j = Inr (bs ! j)"
  using collect_Inr [OF assms [unfolded init_beams_def]] by auto

lemma make_beam_bos:
  "make_beam g mk bt p j = Inr b \<Longrightarrow> get_bos (vocab g) mk bt p j = Inr (bos_id b)"
  unfolding make_beam_def by (auto simp: Beam_def split: sum.splits)

lemma lookup_Inr: "lookup d k = Inr v \<longleftrightarrow> d k = Some v"
  by (simp add: lookup_def split: option.splits)

lemma get_bos_Inr:
  assumes "get_bos v mk bt p j = Inr t"
  shows "(case decoder_tokens bt ! j of
            None \<Rightarrow> word_to_ind v (PAD mk) = Some t
          | Some [] \<Rightarrow> word_to_ind v (PAD mk) = Some t
          | Some (w # ws) \<Rightarrow>
              (if 1 \<le> p
               then p \<le> int (length (w # ws)) \<and> word_to_ind v ((w # ws) ! nat (p - 1)) = Some t
               else - int (length (w # ws)) < p
                    \<and> word_to_ind v ((w # ws) ! nat (int (length (w # ws)) + p - 1)) = Some t))"
  using assms unfolding get_bos_def py_index_def
  by (auto simp: lookup_Inr add.commute split: if_splits option.splits list.splits sum.splits)

lemma prepare_Inr:
  "prepare g mk bt p = Inr (m, ml, st) \<Longrightarrow> init_beams g mk bt p = Inr (beams st)"
  unfolding prepare_def by (auto simp: Let_def split: sum.splits prod.splits)

text \<open>
  C5. When the loop is reached there is one beam per batch item. The beam of an item
  whose ground-truth context is absent or empty starts from the id of the padding word;
  the beam of an item with a context \<open>w # ws\<close> starts from the id of the context word at
  index \<open>gt_prefix - 1\<close>: counted from the front when \<open>gt_prefix\<close> is at least 1, and, as
  Python reads an index below zero, from the end otherwise.
\<close>

theorem beam_bos:
  assumes "prepare g mk bt p = Inr (m, ml, st)" and "j < batch_size bt"
  shows "length (beams st) = batch_size bt \<and>
         (case decoder_tokens bt ! j of
            None \<Rightarrow> word_to_ind (vocab g) (PAD mk) = Some (bos_id (beams st ! j))
          | Some [] \<Rightarrow> word_to_ind (vocab g) (PAD mk) = Some (bos_id (beams st ! j))
          | Some (w # ws) \<Rightarrow>
              (if 1 \<le> p
               then p \<le> int (length (w # ws))
                    \<and> word_to_ind (vocab g) ((w # ws) ! nat (p - 1)) = Some (bos_id (beams st ! j))
               else - int (length (w # ws)) < p
                    \<and> word_to_ind (vocab g) ((w # ws) ! nat (int (length (w # ws)) + p - 1))
                        = Some (bos_id (beams st ! j))))"
  using init_beams_Inr [OF prepare_Inr [OF assms(1)]] assms(2)
    get_bos_Inr [OF make_beam_bos, of g mk bt p j "beams st ! j"]
  by simp

lemma ex_prepare_returns:
  "case prepare (ex_gen 2 1 4) ex_markers (ex_batch [None, Some [''hello'', ''bye'']]) 2 of
     Inl e \<Rightarrow> False | Inr x \<Rightarrow> True"
  "case prepare (ex_gen 2 1 4) ex_markers (ex_batch [None, Some [''hello'', ''bye'']]) 1 of
     Inl e \<Rightarrow> False | Inr x \<Rightarrow> True"
  by code_simp+

theorem beam_bos_witness:
  "\<exists>m ml st. prepare (ex_gen 2 1 4) ex_markers (ex_batch [None, Some [''hello'', ''bye'']]) 2
                = Inr (m, ml, st)
     \<and> length (beams st) = 2 \<and> bos_id (beams st ! 0) = 0 \<and> bos_id (beams st ! 1) = 4"
proof -
  from ex_prepare_returns(1) obtain m ml st where
    P: "prepare (ex_gen 2 1 4) ex_markers (ex_batch [None, Some [''hello'', ''bye'']]) 2
          = Inr (m, ml, st)"
    by (auto split: sum.splits)
  have "length (beams st) = 2 \<and> bos_id (beams st ! 0) = 0"
    using beam_bos [OF P, of 0] by (simp add: ex_batch_def ex_gen_def ex_vocab_def ex_markers_def)
  moreover have "bos_id (beams st ! 1) = 4"
    using beam_bos [OF P, of 1] by (simp add: ex_batch_def ex_gen_def ex_vocab_def ex_markers_def)
  ultimately show ?thesis using P by blast
qed

text \<open>
  C8. When the loop is reached the batch has its previous turns, and: if \<open>gt_prefix\<close> is
  greater than 1, the decoder was run once, on the first \<open>gt_prefix - 1\<close> rows of the
  targets with both memory banks and the initial decoder state, and the loop starts from
  the state of that pass, repeated \<open>beam_size\<close> times; otherwise no forced pass was made
  and the loop starts from the initial decoder state, repeated \<open>beam_size\<close> times.
\<close>

theorem forced_prefix_state:
  assumes "prepare g mk bt p = Inr (m, ml, st)"
  shows "\<exists>pt. prev_turns bt = Some pt \<and>
     (let (enc_states, emb) = encoder (model g) (encoder_inputs bt) (lengths bt);
          ds0 = init_decoder_state (model g) (encoder_inputs bt) emb enc_states;
          mem = Banks [emb, snd (cbow_embedder (model g) pt)];
          inp = take (nat (p - 1)) (targets bt)
      in (1 < p \<longrightarrow> log st = [Forced inp]
                \<and> dec_states st = repeat_beam_size_times (beam_size g)
                     (fst (snd (decoder (model g) inp mem ds0 (lengths bt)))))
       \<and> (p \<le> 1 \<longrightarrow> log st = []
                \<and> dec_states st = repeat_beam_size_times (beam_size g) ds0))"
  using assms unfolding prepare_def context_memory_def forced_prefix_def repeat_memory_def
  by (auto simp: Let_def split: sum.splits prod.splits option.splits bool.splits if_splits)

theorem forced_prefix_state_witness:
  "(\<exists>m ml st. prepare (ex_gen 2 1 4) ex_markers (ex_batch [None, Some [''hello'', ''bye'']]) 2
                 = Inr (m, ml, st)
      \<and> log st = [Forced [[1, 1]]] \<and> dec_states st = [[1], [1], [1], [1]])
   \<and> (\<exists>m ml st. prepare (ex_gen 2 1 4) ex_markers (ex_batch [None, Some [''hello'', ''bye'']]) 1
                 = Inr (m, ml, st)
      \<and> log st = [] \<and> dec_states st = [[], [], [], []])"
proof -
  from ex_prepare_returns(1) obtain m ml st where
    P: "prepare (ex_gen 2 1 4) ex_markers (ex_batch [None, Some [''hello'', ''bye'']]) 2
          = Inr (m, ml, st)"
    by (auto split: sum.splits)
  have "log st = [Forced [[1, 1]]] \<and> dec_states st = [[1], [1], [1], [1]]"
    using forced_prefix_state [OF P]
    by (simp add: ex_batch_def ex_gen_def ex_model_def repeat_beam_size_times_def
        numeral_2_eq_2)
  with P have one: "\<exists>m ml st.
      prepare (ex_gen 2 1 4) ex_markers (ex_batch [None, Some [''hello'', ''bye'']]) 2
        = Inr (m, ml, st)
      \<and> log st = [Forced [[1, 1]]] \<and> dec_states st = [[1], [1], [1], [1]]"
    by blast
  from ex_prepare_returns(2) obtain m' ml' st' where
    Q: "prepare (ex_gen 2 1 4) ex_markers (ex_batch [None, Some [''hello'', ''bye'']]) 1
          = Inr (m', ml', st')"
    by (auto split: sum.splits)
  have "log st' = [] \<and> dec_states st' = [[], [], [], []]"
    using forced_prefix_state [OF Q]
    by (simp add: ex_batch_def ex_gen_def ex_model_def repeat_beam_size_times_def
        numeral_2_eq_2)
  with Q one show ?thesis by blast
qed

subsection \<open>Reindexing the decoder state\<close>

lemma row_less: "s < k \<Longrightarrow> j < bsz \<Longrightarrow> s * bsz + j < k * (bsz::nat)"
proof -
  assume a: "s < k" "j < bsz"
  then have "s * bsz + j < s * bsz + bsz" by simp
  also have "\<dots> = (Suc s) * bsz" by simp
  also from a have "\<dots> \<le> k * bsz" by (intro mult_le_mono1) simp
  finally show ?thesis .
qed

lemma beam_update_Inr:
  assumes "beam_update j ps k ds = Inr ds'" and "length ds = k * bsz"
  shows "0 < k" and "j < bsz" and "length ps = k" and "list_all (\<lambda>p. p < k) ps"
    and "length ds' = k * bsz"
    and "\<And>r. r < k * bsz \<Longrightarrow> r mod bsz \<noteq> j \<Longrightarrow> ds' ! r = ds ! r"
    and "\<And>s. s < k \<Longrightarrow> ds' ! (s * bsz + j) = ds ! (ps ! s * bsz + j)"
proof -
  from assms(1) show k: "0 < k"
    by (auto simp: beam_update_def Let_def split: if_splits)
  with assms(2) have d: "length ds div k = bsz" by simp
  from assms(1) d show j: "j < bsz" and "length ps = k" and "list_all (\<lambda>p. p < k) ps"
    by (auto simp: beam_update_def Let_def split: if_splits)
  from assms(1) d have ds': "ds' = map (\<lambda>r. if r mod bsz = j then ds ! ((ps ! (r div bsz)) * bsz + j)
                          else ds ! r) [0..<length ds]"
    by (auto simp: beam_update_def Let_def split: if_splits)
  with assms(2) show "length ds' = k * bsz" by simp
  show "\<And>r. r < k * bsz \<Longrightarrow> r mod bsz \<noteq> j \<Longrightarrow> ds' ! r = ds ! r"
    using ds' assms(2) by simp
  show "\<And>s. s < k \<Longrightarrow> ds' ! (s * bsz + j) = ds ! (ps ! s * bsz + j)"
    using ds' assms(2) j row_less [of _ k j bsz] by simp
qed

lemma advance_beams_reindex:
  assumes "advance_beams k bsz ml i out attn js st = Inr st'"
    and "distinct js" and "length (dec_states st) = k * bsz"
  shows "length (dec_states st') = k * bsz \<and> length (beams st') = length (beams st)
     \<and> (\<forall>j \<in> set js. j < bsz \<and> length (get_current_origin (beams st' ! j)) = k
            \<and> list_all (\<lambda>p. p < k) (get_current_origin (beams st' ! j))
            \<and> (\<forall>s < k. dec_states st' ! (s * bsz + j)
                   = dec_states st ! (get_current_origin (beams st' ! j) ! s * bsz + j)))
     \<and> (\<forall>r < k * bsz. r mod bsz \<notin> set js \<longrightarrow> dec_states st' ! r = dec_states st ! r)
     \<and> (\<forall>j. j \<notin> set js \<longrightarrow> beams st' ! j = beams st ! j)"
  using assms
proof (induction js arbitrary: st)
  case Nil
  then show ?case by simp
next
  case (Cons j js)
  let ?b = "beams st ! j"
  from Cons.prems(1) obtain b' ds where
    jl: "j < length (beams st)"
    and adv: "advance (map (\<lambda>s. out ! (s * bsz + j)) [0..<k])
                (map (\<lambda>s. take (ml ! j) (attn ! (s * bsz + j))) [0..<k]) ?b = Inr b'"
    and upd: "beam_update j (get_current_origin b') k (dec_states st) = Inr ds"
    and rest: "advance_beams k bsz ml i out attn js
                 (st\<lparr>beams := (beams st)[j := b'], dec_states := ds,
                      log := (log st @ [Advance i j ?b]) @ [Reindex i j (get_current_origin b')]\<rparr>) = Inr st'"
    by (auto simp: Let_def split: if_splits sum.splits)
  let ?st1 = "st\<lparr>beams := (beams st)[j := b'], dec_states := ds,
                      log := (log st @ [Advance i j ?b]) @ [Reindex i j (get_current_origin b')]\<rparr>"
  note U = beam_update_Inr [OF upd Cons.prems(3)]
  from Cons.prems(2) have dj: "distinct js" and jn: "j \<notin> set js" by auto
  from U(5) have l1: "length (dec_states ?st1) = k * bsz" by simp
  note IH = Cons.IH [OF rest dj l1]
  from IH jn jl have bj: "beams st' ! j = b'" by simp
  have A: "\<forall>s<k. dec_states st' ! (s * bsz + j) = dec_states st ! (get_current_origin b' ! s * bsz + j)"
  proof (intro allI impI)
    fix s assume s: "s < k"
    with U(2) have "s * bsz + j < k * bsz" by (simp add: row_less)
    moreover from U(2) have "(s * bsz + j) mod bsz = j" by simp
    ultimately have "dec_states st' ! (s * bsz + j) = ds ! (s * bsz + j)"
      using IH jn by simp
    with U(7) [OF s] show "dec_states st' ! (s * bsz + j) = dec_states st ! (get_current_origin b' ! s * bsz + j)"
      by simp
  qed
  have B: "\<forall>j' \<in> set js. \<forall>s<k. dec_states st' ! (s * bsz + j')
                   = dec_states st ! (get_current_origin (beams st' ! j') ! s * bsz + j')"
  proof (intro ballI allI impI)
    fix j' s assume j': "j' \<in> set js" and s: "s < k"
    let ?q = "get_current_origin (beams st' ! j') ! s"
    from IH j' s have q: "?q < k" and jb: "j' < bsz"
      and e: "dec_states st' ! (s * bsz + j') = ds ! (?q * bsz + j')"
      by (auto simp: list_all_length)
    from q jb have "?q * bsz + j' < k * bsz" by (simp add: row_less)
    moreover from jb j' jn have "(?q * bsz + j') mod bsz \<noteq> j" by auto
    ultimately have "ds ! (?q * bsz + j') = dec_states st ! (?q * bsz + j')"
      by (rule U(6))
    with e show "dec_states st' ! (s * bsz + j') = dec_states st ! (?q * bsz + j')" by simp
  qed
  have C: "\<forall>r < k * bsz. r mod bsz \<notin> set (j # js) \<longrightarrow> dec_states st' ! r = dec_states st ! r"
    using IH U(6) by simp
  have D: "\<forall>j'. j' \<notin> set (j # js) \<longrightarrow> beams st' ! j' = beams st ! j'"
    using IH by simp
  from IH A B C D U bj show ?case by simp
qed

text \<open>
  C7. One pass of the loop body at lines 179 to 183 for item \<open>j\<close>, on a state of
  \<open>k * bsz\<close> rows: afterwards row \<open>s\<close> of item \<open>j\<close> is what row \<open>origin ! s\<close> of item \<open>j\<close>
  was, for the origins of the beam just advanced, and every row of another item is as it
  was. Hence after a whole decoding step, and so before the next call of the model, the
  rows of every item \<open>j\<close> are the rows the decoder returned for item \<open>j\<close>, reordered by the
  origins of beam \<open>j\<close>.
\<close>

theorem reindex_per_item:
  "(advance_beams k bsz ml i out attn [j] st = Inr sta \<and> length (dec_states st) = k * bsz \<longrightarrow>
      (\<forall>s<k. dec_states sta ! (s * bsz + j)
                = dec_states st ! (get_current_origin (beams sta ! j) ! s * bsz + j))
      \<and> (\<forall>r<k * bsz. r mod bsz \<noteq> j \<longrightarrow> dec_states sta ! r = dec_states st ! r))
   \<and> (decode_step g n m ml' i' stb = Inr stc \<and> length (beams stb) = n
        \<and> decoder (model g) [concat (transpose (map get_current_state (beams stb)))] m
             (dec_states stb) ml' = (dec_out, nds, att)
        \<and> length nds = beam_size g * n \<longrightarrow>
      (\<forall>j<n. \<forall>s<beam_size g. dec_states stc ! (s * n + j)
                = nds ! (get_current_origin (beams stc ! j) ! s * n + j)))"
proof (intro conjI impI)
  assume a: "advance_beams k bsz ml i out attn [j] st = Inr sta \<and> length (dec_states st) = k * bsz"
  from advance_beams_reindex [of k bsz ml i out attn "[j]" st sta] a
  show "\<forall>s<k. dec_states sta ! (s * bsz + j)
                = dec_states st ! (get_current_origin (beams sta ! j) ! s * bsz + j)"
    and "\<forall>r<k * bsz. r mod bsz \<noteq> j \<longrightarrow> dec_states sta ! r = dec_states st ! r"
    by simp_all
next
  assume b: "decode_step g n m ml' i' stb = Inr stc \<and> length (beams stb) = n
        \<and> decoder (model g) [concat (transpose (map get_current_state (beams stb)))] m
             (dec_states stb) ml' = (dec_out, nds, att)
        \<and> length nds = beam_size g * n"
  then have "advance_beams (beam_size g) n ml' i' (generator_forward (model g) dec_out) att [0..<n]
               (stb\<lparr>dec_states := nds, log := log stb @ [Decode i' (generator_forward (model g) dec_out) att]\<rparr>) = Inr stc"
    by (auto simp: decode_step_def Let_def split: if_splits)
  from advance_beams_reindex [OF this] b
  show "\<forall>j<n. \<forall>s<beam_size g. dec_states stc ! (s * n + j)
                = nds ! (get_current_origin (beams stc ! j) ! s * n + j)"
    by simp
qed

lemma ex_decode_step:
  "case decode_step (ex_gen 2 1 4) 2 (Banks [[7, 7, 7, 7], [8, 8, 8, 8]]) [2, 2, 2, 2] 1 ex_mid_state of
     Inl e \<Rightarrow> False
   | Inr st \<Rightarrow> dec_states st = [[12, 4], [11, 4], [10, 3], [13, 0]]
       \<and> map get_current_origin (beams st) = [[1, 0], [0, 1]]"
  by code_simp

lemma ex_iteration:
  "case advance_beams 2 2 [2, 2, 2, 2] 1 (map row_after [3, 4, 4, 0])
          (replicate 4 [1 / 2, 1 / 2, 0]) [0] (ex_mid_state\<lparr>dec_states := [[10, 3], [11, 4], [12, 4], [13, 0]]\<rparr>) of
     Inl e \<Rightarrow> False
   | Inr st \<Rightarrow> dec_states st = [[12, 4], [11, 4], [10, 3], [13, 0]]
       \<and> map get_current_origin (beams st) = [[1, 0], [0, 0]]"
  by code_simp


theorem reindex_per_item_witness:
  "(\<exists>sta. advance_beams 2 2 [2, 2, 2, 2] 1 (map row_after [3, 4, 4, 0])
            (replicate 4 [1 / 2, 1 / 2, 0]) [0]
            (ex_mid_state\<lparr>dec_states := [[10, 3], [11, 4], [12, 4], [13, 0]]\<rparr>) = Inr sta
      \<and> get_current_origin (beams sta ! 0) = [1, 0]
      \<and> dec_states sta ! 0 = [12, 4] \<and> dec_states sta ! 2 = [10, 3]
      \<and> dec_states sta ! 1 = [11, 4] \<and> dec_states sta ! 3 = [13, 0])
   \<and> (\<exists>stc. decode_step (ex_gen 2 1 4) 2 (Banks [[7, 7, 7, 7], [8, 8, 8, 8]]) [2, 2, 2, 2] 1
            ex_mid_state = Inr stc
      \<and> map get_current_origin (beams stc) = [[1, 0], [0, 1]]
      \<and> dec_states stc ! 0 = [12, 4] \<and> dec_states stc ! 2 = [10, 3]
      \<and> dec_states stc ! 1 = [11, 4] \<and> dec_states stc ! 3 = [13, 0])"
proof -
  let ?S = "ex_mid_state\<lparr>dec_states := [[10, 3], [11, 4], [12, 4], [13, 0]]\<rparr>"
  from ex_iteration obtain sta where
    A: "advance_beams 2 2 [2, 2, 2, 2] 1 (map row_after [3, 4, 4, 0])
          (replicate 4 [1 / 2, 1 / 2, 0]) [0] ?S = Inr sta"
    and O: "get_current_origin (beams sta ! 0) = [1, 0]"
    by (auto split: sum.splits)
  have L: "length (dec_states ?S) = 2 * 2" by simp
  from reindex_per_item [where k = 2 and bsz = 2 and j = 0 and st = ?S and sta = sta
      and ml = "[2, 2, 2, 2]" and i = 1 and out = "map row_after [3, 4, 4, 0]"
      and attn = "replicate 4 [1 / 2, 1 / 2, 0]"] A L
  have P: "\<forall>s<2. dec_states sta ! (s * 2 + 0)
                = dec_states ?S ! (get_current_origin (beams sta ! 0) ! s * 2 + 0)"
    and F: "\<forall>r<2 * 2. r mod 2 \<noteq> 0 \<longrightarrow> dec_states sta ! r = dec_states ?S ! r"
    by blast+
  from P [rule_format, of 0] P [rule_format, of 1] O
  have p: "dec_states sta ! 0 = [12, 4] \<and> dec_states sta ! 2 = [10, 3]" by simp
  from F [rule_format, of 1] F [rule_format, of 3]
  have f: "dec_states sta ! 1 = [11, 4] \<and> dec_states sta ! 3 = [13, 0]" by simp
  from ex_decode_step obtain stc where
    B: "decode_step (ex_gen 2 1 4) 2 (Banks [[7, 7, 7, 7], [8, 8, 8, 8]]) [2, 2, 2, 2] 1
          ex_mid_state = Inr stc"
    and O3: "map get_current_origin (beams stc) = [[1, 0], [0, 1]]"
    by (auto split: sum.splits)
  have lb: "length (beams stc) = 2" using O3 [THEN arg_cong, of length] by simp
  from O3 lb have o0: "get_current_origin (beams stc ! 0) = [1, 0]"
    and o1: "get_current_origin (beams stc ! 1) = [0, 1]"
    by (auto simp: list_eq_iff_nth_eq)
  have dec: "decoder (model (ex_gen 2 1 4))
               [concat (transpose (map get_current_state (beams ex_mid_state)))]
               (Banks [[7, 7, 7, 7], [8, 8, 8, 8]]) (dec_states ex_mid_state) [2, 2, 2, 2]
             = ([3, 4, 4, 0], [[10, 3], [11, 4], [12, 4], [13, 0]],
                replicate 4 [1 / 2, 1 / 2, 0])"
    by code_simp
  have "length (beams ex_mid_state) = 2"
    and "length [[10, 3], [11, 4], [12, 4], [13::nat, 0]] = beam_size (ex_gen 2 1 4) * 2"
    by (simp_all add: ex_mid_state_def ex_gen_def)
  with reindex_per_item [where g = "ex_gen 2 1 4" and n = 2 and stb = ex_mid_state
      and stc = stc and m = "Banks [[7, 7, 7, 7], [8, 8, 8, 8]]" and ml' = "[2, 2, 2, 2]"
      and i' = 1 and dec_out = "[3, 4, 4, 0]" and nds = "[[10, 3], [11, 4], [12, 4], [13, 0]]"
      and att = "replicate 4 [1 / 2, 1 / 2, 0]"] B dec
  have Q: "\<forall>j<2. \<forall>s<beam_size (ex_gen 2 1 4). dec_states stc ! (s * 2 + j)
             = [[10, 3], [11, 4], [12, 4], [13, 0]] ! (get_current_origin (beams stc ! j) ! s * 2 + j)"
    by blast
  have k2: "beam_size (ex_gen 2 1 4) = 2" by (simp add: ex_gen_def)
  from Q [rule_format, of 0 0] Q [rule_format, of 0 1] Q [rule_format, of 1 0]
    Q [rule_format, of 1 1] o0 o1 k2
  have q: "dec_states stc ! 0 = [12, 4] \<and> dec_states stc ! 2 = [10, 3]
      \<and> dec_states stc ! 1 = [11, 4] \<and> dec_states stc ! 3 = [13, 0]"
    by simp
  have one: "\<exists>sta. advance_beams 2 2 [2, 2, 2, 2] 1 (map row_after [3, 4, 4, 0])
            (replicate 4 [1 / 2, 1 / 2, 0]) [0] ?S = Inr sta
      \<and> get_current_origin (beams sta ! 0) = [1, 0]
      \<and> dec_states sta ! 0 = [12, 4] \<and> dec_states sta ! 2 = [10, 3]
      \<and> dec_states sta ! 1 = [11, 4] \<and> dec_states sta ! 3 = [13, 0]"
    using A O p f by (intro exI [of _ sta]) simp
  have two: "\<exists>stc. decode_step (ex_gen 2 1 4) 2 (Banks [[7, 7, 7, 7], [8, 8, 8, 8]]) [2, 2, 2, 2] 1
            ex_mid_state = Inr stc
      \<and> map get_current_origin (beams stc) = [[1, 0], [0, 1]]
      \<and> dec_states stc ! 0 = [12, 4] \<and> dec_states stc ! 2 = [10, 3]
      \<and> dec_states stc ! 1 = [11, 4] \<and> dec_states stc ! 3 = [13, 0]"
    using B O3 q by (intro exI [of _ stc]) simp
  from one two show ?thesis by (rule conjI)
qed

subsection \<open>Which beams are advanced\<close>

lemma trace_eq:
  "trace g mk bt p =
     (case prepare g mk bt p of
        Inl (e, l) \<Rightarrow> l
      | Inr (m, ml, st0) \<Rightarrow> log_of (stepping g (batch_size bt) m ml [0..<max_length g] st0))"
  unfolding trace_def generate_batch_run_def
  by (auto split: sum.splits prod.splits)

lemma justified_Nil: "justified []"
  by (simp add: justified_def)













subsection \<open>The ranked hypotheses of a result\<close>

lemma length_beams_advance_beams:
  "advance_beams k bsz ml i out attn js st = Inr st' \<Longrightarrow> length (beams st') = length (beams st)"
proof (induction js arbitrary: st)
  case Nil
  then show ?case by simp
next
  case (Cons j js)
  from Cons.prems obtain st1 where
    "advance_beams k bsz ml i out attn js st1 = Inr st'" "length (beams st1) = length (beams st)"
    by (auto simp: Let_def split: if_splits sum.splits)
  with Cons.IH [of st1] show ?case by simp
qed

lemma length_beams_decode_step:
  "decode_step g bsz m ml i st = Inr st' \<Longrightarrow> length (beams st') = length (beams st)"
  unfolding decode_step_def
  by (auto simp: Let_def dest!: length_beams_advance_beams split: prod.splits if_splits)

lemma length_beams_stepping:
  "stepping g bsz m ml is st = Inr st' \<Longrightarrow> length (beams st') = length (beams st)"
proof (induction "is" arbitrary: st)
  case Nil
  then show ?case by simp
next
  case (Cons i "is")
  show ?case
  proof (cases "list_all done_b (beams st)")
    case True
    with Cons.prems show ?thesis by simp
  next
    case False
    with Cons.prems obtain st2 where
      d: "decode_step g bsz m ml i (st\<lparr>log := log st @ [Step i (beams st)]\<rparr>) = Inr st2"
      and r: "stepping g bsz m ml is st2 = Inr st'"
      by (auto split: sum.splits)
    from length_beams_decode_step [OF d] Cons.IH [OF r] show ?thesis by simp
  qed
qed


lemma length_insert_desc [simp]: "length (insert_desc f x xs) = Suc (length xs)"
  by (induction xs) auto

lemma length_foldl_insert_desc:
  "length (foldl (\<lambda>acc x. insert_desc f x acc) acc xs) = length acc + length xs"
  by (induction xs arbitrary: acc) auto

lemma length_sort_desc [simp]: "length (sort_desc f xs) = length xs"
  by (simp add: sort_desc_def length_foldl_insert_desc)

lemma sorted_desc_Cons:
  "sorted_desc (x # xs) \<longleftrightarrow> (case xs of [] \<Rightarrow> True | y # ys \<Rightarrow> y \<le> x \<and> sorted_desc xs)"
  by (cases xs) auto






lemma from_beam_Inr:
  assumes "from_beam g bs = Inr r" and "j < length bs"
  shows "from_beam_one (n_best g) (bs ! j) = Inr (predictions r ! j, scores r ! j, attention r ! j)"
    and "length (predictions r) = length bs"
proof -
  from assms(1) obtain rs where
    c: "collect (map (from_beam_one (n_best g)) bs) = Inr rs"
    and r: "predictions r = map fst rs" "scores r = map (\<lambda>r. fst (snd r)) rs"
      "attention r = map (\<lambda>r. snd (snd r)) rs"
    by (auto simp: from_beam_def split: sum.splits)
  from collect_Inr [OF c] assms(2) have l: "length rs = length bs"
    and e: "from_beam_one (n_best g) (bs ! j) = Inr (rs ! j)" by auto
  from e r l assms(2)
  show "from_beam_one (n_best g) (bs ! j) = Inr (predictions r ! j, scores r ! j, attention r ! j)"
    by simp
  from r l show "length (predictions r) = length bs" by simp
qed

lemma generate_batch_final_beams:
  assumes "generate_batch g mk bt p = Inr (r :: ('ei, 'pt, 'it) ret)"
  shows "\<exists>r0 :: ('ei, 'pt, 'it) ret.
           from_beam g (final_beams g mk bt p) = Inr r0 \<and> predictions r = predictions r0
           \<and> scores r = scores r0 \<and> attention r = attention r0"
  using generate_batch_Inr [OF assms] by (auto simp: final_beams_def)





subsection \<open>The result as a function of the model's outputs\<close>

lemma decodes_append [simp]: "decodes (l @ l') = decodes l @ decodes l'"
  by (induction l rule: decodes.induct) auto

lemma beams_advance_beams:
  assumes "advance_beams k bsz ml i out attn js st = Inr st'" and "distinct js"
  shows "decodes (log st') = decodes (log st)
     \<and> (\<forall>j\<in>set js. beam_step k bsz ml j (out, attn) (beams st ! j) = Inr (beams st' ! j))
     \<and> (\<forall>j. j \<notin> set js \<longrightarrow> beams st' ! j = beams st ! j)"
  using assms
proof (induction js arbitrary: st)
  case Nil
  then show ?case by simp
next
  case (Cons j js)
  let ?b = "beams st ! j"
  from Cons.prems(1) obtain b' ds where
    jl: "j < length (beams st)"
    and adv: "beam_step k bsz ml j (out, attn) ?b = Inr b'"
    and rest: "advance_beams k bsz ml i out attn js
                 (st\<lparr>beams := (beams st)[j := b'], dec_states := ds,
                      log := (log st @ [Advance i j ?b]) @ [Reindex i j (get_current_origin b')]\<rparr>) = Inr st'"
    by (auto simp: Let_def beam_step_def split: if_splits sum.splits)
  let ?st1 = "st\<lparr>beams := (beams st)[j := b'], dec_states := ds,
                      log := (log st @ [Advance i j ?b]) @ [Reindex i j (get_current_origin b')]\<rparr>"
  from Cons.prems(2) have dj: "distinct js" and jn: "j \<notin> set js" by auto
  note IH = Cons.IH [OF rest dj]
  from IH jn jl have bj: "beams st' ! j = b'" by simp
  have others: "\<forall>j'\<in>set js. beam_step k bsz ml j' (out, attn) (beams st ! j') = Inr (beams st' ! j')"
  proof
    fix j' assume m: "j' \<in> set js"
    with jn have "j' \<noteq> j" by auto
    then have "(beams st)[j := b'] ! j' = beams st ! j'" by simp
    with m IH show "beam_step k bsz ml j' (out, attn) (beams st ! j') = Inr (beams st' ! j')"
      by auto
  qed
  from IH have "decodes (log st') = decodes (log st)" by simp
  moreover from IH have "\<forall>j'. j' \<notin> set (j # js) \<longrightarrow> beams st' ! j' = beams st ! j'" by simp
  ultimately show ?case using adv bj others by simp
qed

lemma beams_decode_step:
  assumes "decode_step g bsz m ml i st = Inr st'"
  shows "\<exists>d. decodes (log st') = decodes (log st) @ [d]
           \<and> (\<forall>j<length (beams st). beam_step (beam_size g) bsz ml j d (beams st ! j) = Inr (beams st' ! j))"
proof -
  obtain dec_out nds att where
    d: "decoder (model g) [concat (transpose (map get_current_state (beams st)))] m
          (dec_states st) ml = (dec_out, nds, att)"
    by (cases "decoder (model g) [concat (transpose (map get_current_state (beams st)))] m
          (dec_states st) ml") auto
  let ?out = "generator_forward (model g) dec_out"
  let ?st1 = "st\<lparr>dec_states := nds, log := log st @ [Decode i ?out att]\<rparr>"
  from assms d have
    "advance_beams (beam_size g) bsz ml i ?out att [0..<length (beams st)] ?st1 = Inr st'"
    by (auto simp: decode_step_def Let_def split: if_splits)
  from beams_advance_beams [OF this] show ?thesis by (intro exI [of _ "(?out, att)"]) simp
qed

lemma beams_stepping:
  assumes "stepping g bsz m ml is st = Inr st'"
  shows "\<exists>ds. decodes (log st') = decodes (log st) @ ds
           \<and> (\<forall>j<length (beams st). beams st' ! j = replay_item (beam_size g) bsz ml j ds (beams st ! j))"
  using assms
proof (induction "is" arbitrary: st)
  case Nil
  then show ?case by (intro exI [of _ "[]"]) simp
next
  case (Cons i "is")
  show ?case
  proof (cases "list_all done_b (beams st)")
    case True
    with Cons.prems show ?thesis by (intro exI [of _ "[]"]) simp
  next
    case False
    with Cons.prems obtain st2 where
      d: "decode_step g bsz m ml i (st\<lparr>log := log st @ [Step i (beams st)]\<rparr>) = Inr st2"
      and r: "stepping g bsz m ml is st2 = Inr st'"
      by (auto split: sum.splits)
    from beams_decode_step [OF d] obtain d0 where
      l2: "decodes (log st2) = decodes (log st) @ [d0]"
      and b2: "\<forall>j<length (beams st). beam_step (beam_size g) bsz ml j d0 (beams st ! j) = Inr (beams st2 ! j)"
      by auto
    from Cons.IH [OF r] obtain ds where
      l': "decodes (log st') = decodes (log st2) @ ds"
      and b': "\<forall>j<length (beams st2). beams st' ! j = replay_item (beam_size g) bsz ml j ds (beams st2 ! j)"
      by auto
    from length_beams_decode_step [OF d] have len: "length (beams st2) = length (beams st)" by simp
    show ?thesis
    proof (intro exI [of _ "d0 # ds"] conjI allI impI)
      from l2 l' show "decodes (log st') = decodes (log st) @ d0 # ds" by simp
      fix j assume j: "j < length (beams st)"
      with b2 b' len
      show "beams st' ! j = replay_item (beam_size g) bsz ml j (d0 # ds) (beams st ! j)" by simp
    qed
  qed
qed

lemma decodes_prepare:
  "prepare g mk bt p = Inr (m, ml, st0) \<Longrightarrow> decodes (log st0) = [] \<and> ml = rvar (beam_size g) (lengths bt)"
  unfolding prepare_def forced_prefix_def
  by (auto simp: Let_def split: sum.splits prod.splits if_splits)

lemma run_replay:
  assumes "generate_batch g mk bt p = Inr r"
  shows "\<exists>bs0. init_beams g mk bt p = Inr bs0 \<and> length (final_beams g mk bt p) = length bs0
     \<and> (\<forall>j<length bs0. final_beams g mk bt p ! j
          = replay_item (beam_size g) (batch_size bt) (rvar (beam_size g) (lengths bt)) j
              (decodes (trace g mk bt p)) (bs0 ! j))"
proof -
  from generate_batch_Inr [OF assms] obtain m ml st0 st where
    P: "prepare g mk bt p = Inr (m, ml, st0)"
    and S: "stepping g (batch_size bt) m ml [0..<max_length g] st0 = Inr st"
    by blast
  from P S have t: "trace g mk bt p = log st" by (simp add: trace_eq)
  from P S have f: "final_beams g mk bt p = beams st" by (simp add: final_beams_def)
  from decodes_prepare [OF P] have d0: "decodes (log st0) = []"
    and ml: "ml = rvar (beam_size g) (lengths bt)" by simp_all
  from beams_stepping [OF S] d0 obtain ds where
    ds: "decodes (log st) = ds"
    and b: "\<forall>j<length (beams st0). beams st ! j
              = replay_item (beam_size g) (batch_size bt) ml j ds (beams st0 ! j)"
    by auto
  show ?thesis
  proof (intro exI [of _ "beams st0"] conjI)
    show "init_beams g mk bt p = Inr (beams st0)" by (rule prepare_Inr [OF P])
    show "length (final_beams g mk bt p) = length (beams st0)"
      using length_beams_stepping [OF S] f by simp
    show "\<forall>j<length (beams st0). final_beams g mk bt p ! j
          = replay_item (beam_size g) (batch_size bt) (rvar (beam_size g) (lengths bt)) j
              (decodes (trace g mk bt p)) (beams st0 ! j)"
      using b ds t f ml by simp
  qed
qed

lemma make_beam_config:
  "config g1 = config g2 \<Longrightarrow> make_beam g1 mk bt p j = make_beam g2 mk bt p j"
  by (auto simp: config_def make_beam_def split: sum.splits)

lemma init_beams_config:
  assumes "config g1 = config g2"
  shows "init_beams g1 mk bt p = init_beams g2 mk bt p"
proof -
  have "map (make_beam g1 mk bt p) [0..<batch_size bt]
          = map (make_beam g2 mk bt p) [0..<batch_size bt]"
    by (rule map_cong [OF refl]) (rule make_beam_config [OF assms])
  then show ?thesis unfolding init_beams_def by (rule arg_cong)
qed

lemma from_beam_config:
  "n_best g1 = n_best g2 \<Longrightarrow> from_beam g1 bs = Inr r1 \<Longrightarrow> from_beam g2 bs = Inr r2
     \<Longrightarrow> predictions r1 = predictions r2 \<and> scores r1 = scores r2 \<and> attention r1 = attention r2"
  by (auto simp: from_beam_def split: sum.splits)

text \<open>
  C9. Two runs on the same batch with the same prefix length, by generators of the same
  configuration whose models (of whatever kind, with whatever decoder state) returned the
  same scores and attention at every step, return the same predictions, scores and
  attention. The beams are a function of the model's outputs alone; ties are broken by
  index.
\<close>

theorem deterministic:
  assumes "generate_batch g1 mk bt p = Inr (r1 :: ('a, 'b, 'c) ret)"
    and "generate_batch g2 mk bt p = Inr (r2 :: ('a, 'b, 'c) ret)"
    and "config g1 = config g2"
    and "decodes (trace g1 mk bt p) = decodes (trace g2 mk bt p)"
  shows "predictions r1 = predictions r2 \<and> scores r1 = scores r2 \<and> attention r1 = attention r2"
proof -
  from assms(3) have k: "beam_size g1 = beam_size g2" and n: "n_best g1 = n_best g2"
    by (simp_all add: config_def)
  from run_replay [OF assms(1)] obtain bs1 where
    i1: "init_beams g1 mk bt p = Inr bs1" and l1: "length (final_beams g1 mk bt p) = length bs1"
    and f1: "\<forall>j<length bs1. final_beams g1 mk bt p ! j
          = replay_item (beam_size g1) (batch_size bt) (rvar (beam_size g1) (lengths bt)) j
              (decodes (trace g1 mk bt p)) (bs1 ! j)"
    by blast
  from run_replay [OF assms(2)] obtain bs2 where
    i2: "init_beams g2 mk bt p = Inr bs2" and l2: "length (final_beams g2 mk bt p) = length bs2"
    and f2: "\<forall>j<length bs2. final_beams g2 mk bt p ! j
          = replay_item (beam_size g2) (batch_size bt) (rvar (beam_size g2) (lengths bt)) j
              (decodes (trace g2 mk bt p)) (bs2 ! j)"
    by blast
  from i1 i2 init_beams_config [OF assms(3), of mk bt p] have bs: "bs1 = bs2" by simp
  have fb: "final_beams g1 mk bt p = final_beams g2 mk bt p"
  proof (rule nth_equalityI)
    show "length (final_beams g1 mk bt p) = length (final_beams g2 mk bt p)"
      using l1 l2 bs by simp
    fix j assume "j < length (final_beams g1 mk bt p)"
    with l1 bs have j: "j < length bs1" "j < length bs2" by simp_all
    from f1 [rule_format, OF j(1)] f2 [rule_format, OF j(2)] bs k assms(4)
    show "final_beams g1 mk bt p ! j = final_beams g2 mk bt p ! j" by simp
  qed
  from generate_batch_final_beams [OF assms(1)] obtain q1 :: "('a, 'b, 'c) ret" where
    q1: "from_beam g1 (final_beams g1 mk bt p) = Inr q1" "predictions r1 = predictions q1"
    "scores r1 = scores q1" "attention r1 = attention q1" by blast
  from generate_batch_final_beams [OF assms(2)] obtain q2 :: "('a, 'b, 'c) ret" where
    q2: "from_beam g2 (final_beams g2 mk bt p) = Inr q2" "predictions r2 = predictions q2"
    "scores r2 = scores q2" "attention r2 = attention q2" by blast
  from q1(1) fb have "from_beam g1 (final_beams g2 mk bt p) = Inr q1" by simp
  from from_beam_config [OF n this q2(1)] q1 q2 show ?thesis by simp
qed

lemma ex_two_models:
  "case generate_batch (ex_gen 2 1 4) ex_markers (ex_batch [Some [''hello''], Some [''bye'']]) 1 of
     Inl e \<Rightarrow> False | Inr r \<Rightarrow> True"
  "case generate_batch (ex_gen_stateless 2 1 4) ex_markers (ex_batch [Some [''hello''], Some [''bye'']]) 1 of
     Inl e \<Rightarrow> False | Inr r \<Rightarrow> predictions r = [[[2]], [[2]]]"
  "decodes (trace (ex_gen 2 1 4) ex_markers (ex_batch [Some [''hello''], Some [''bye'']]) 1)
     = decodes (trace (ex_gen_stateless 2 1 4) ex_markers (ex_batch [Some [''hello''], Some [''bye'']]) 1)"
  by code_simp+

theorem deterministic_witness:
  "\<exists>r1 r2. generate_batch (ex_gen 2 1 4) ex_markers (ex_batch [Some [''hello''], Some [''bye'']]) 1 = Inr r1
     \<and> generate_batch (ex_gen_stateless 2 1 4) ex_markers (ex_batch [Some [''hello''], Some [''bye'']]) 1
          = Inr r2
     \<and> predictions r1 = [[[2]], [[2]]] \<and> predictions r1 = predictions r2
     \<and> scores r1 = scores r2 \<and> attention r1 = attention r2"
proof -
  from ex_two_models(1) obtain r1 where
    R1: "generate_batch (ex_gen 2 1 4) ex_markers (ex_batch [Some [''hello''], Some [''bye'']]) 1 = Inr r1"
    by (auto split: sum.splits)
  from ex_two_models(2) obtain r2 where
    R2: "generate_batch (ex_gen_stateless 2 1 4) ex_markers (ex_batch [Some [''hello''], Some [''bye'']]) 1
           = Inr r2"
    and p2: "predictions r2 = [[[2]], [[2]]]"
    by (auto split: sum.splits)
  have c: "config (ex_gen 2 1 4) = config (ex_gen_stateless 2 1 4)"
    by (simp add: config_def ex_gen_def ex_gen_stateless_def)
  from deterministic [OF R1 R2 c ex_two_models(3)] p2
  have "predictions r1 = [[[2]], [[2]]] \<and> predictions r1 = predictions r2
     \<and> scores r1 = scores r2 \<and> attention r1 = attention r2"
    by simp
  with R1 R2 show ?thesis by blast
qed

subsection \<open>A batch and its items\<close>

lemma advance_Inr:
  "advance wp att b = Inr b' \<Longrightarrow> \<not> done_b b \<and> length wp = beam_width b \<and> 0 < length wp"
  by (auto simp: advance_def Let_def split: if_splits)

lemma beam_step_Inr:
  "beam_step k bsz ml j d b = Inr b' \<Longrightarrow> \<not> done_b b \<and> 0 < k"
  by (auto simp: beam_step_def dest!: advance_Inr)

lemma beam_step_agree:
  assumes "agree k bsz j d d1" and "ml ! j = ml1 ! 0"
  shows "beam_step k bsz ml j d b = beam_step k 1 ml1 0 d1 b"
proof -
  from assms(1) have e: "\<And>s. s < k \<Longrightarrow>
      fst d ! (s * bsz + j) = fst d1 ! s \<and> snd d ! (s * bsz + j) = snd d1 ! s"
    by (simp add: agree_def list_all_iff)
  have a: "map (\<lambda>s. fst d ! (s * bsz + j)) [0..<k] = map (\<lambda>s. fst d1 ! (s * 1 + 0)) [0..<k]"
    by (rule map_cong [OF refl]) (simp add: e)
  have b: "map (\<lambda>s. take (ml ! j) (snd d ! (s * bsz + j))) [0..<k]
             = map (\<lambda>s. take (ml1 ! 0) (snd d1 ! (s * 1 + 0))) [0..<k]"
    by (rule map_cong [OF refl]) (simp add: e assms(2))
  show ?thesis unfolding beam_step_def a b ..
qed

lemma joint_stepping:
  assumes "stepping g bsz m ml is st = Inr st'" and "stepping g 1 m1 ml1 is st1 = Inr st1'"
    and "j < length (beams st)" and "beams st1 = [beams st ! j]"
    and "0 < beam_size g \<longrightarrow> ml ! j = ml1 ! 0"
    and "decodes (log st') = decodes (log st) @ ds"
    and "decodes (log st1') = decodes (log st1) @ ds1"
    and "outputs_agree (beam_size g) bsz j ds ds1"
  shows "beams st1' = [beams st' ! j]"
  using assms
proof (induction "is" arbitrary: st st1 ds ds1)
  case Nil
  then show ?case by simp
next
  case (Cons i "is")
  show ?case
  proof (cases "list_all done_b (beams st)")
    case True
    with Cons.prems(3) have "done_b (beams st ! j)" by (simp add: list_all_length)
    with Cons.prems(4) have "list_all done_b (beams st1)" by simp
    with True Cons.prems(1,2,4) show ?thesis by simp
  next
    case False
    with Cons.prems(1) obtain st2 where
      d: "decode_step g bsz m ml i (st\<lparr>log := log st @ [Step i (beams st)]\<rparr>) = Inr st2"
      and r: "stepping g bsz m ml is st2 = Inr st'"
      by (auto split: sum.splits)
    from beams_decode_step [OF d] Cons.prems(3) obtain d0 where
      l2: "decodes (log st2) = decodes (log st) @ [d0]"
      and b2: "beam_step (beam_size g) bsz ml j d0 (beams st ! j) = Inr (beams st2 ! j)"
      by auto
    from beam_step_Inr [OF b2] have nd: "\<not> done_b (beams st ! j)" and k: "0 < beam_size g"
      by simp_all
    from nd Cons.prems(4) have "\<not> list_all done_b (beams st1)" by simp
    with Cons.prems(2) obtain st12 where
      d1: "decode_step g 1 m1 ml1 i (st1\<lparr>log := log st1 @ [Step i (beams st1)]\<rparr>) = Inr st12"
      and r1: "stepping g 1 m1 ml1 is st12 = Inr st1'"
      by (auto split: sum.splits)
    from beams_decode_step [OF d1] Cons.prems(4) obtain d01 where
      l12: "decodes (log st12) = decodes (log st1) @ [d01]"
      and b12: "beam_step (beam_size g) 1 ml1 0 d01 (beams st ! j) = Inr (beams st12 ! 0)"
      by auto
    from beams_stepping [OF r] obtain ds' where
      l': "decodes (log st') = decodes (log st2) @ ds'" by blast
    from beams_stepping [OF r1] obtain ds1' where
      l1': "decodes (log st1') = decodes (log st12) @ ds1'" by blast
    from l' l2 Cons.prems(6) have ds: "ds = d0 # ds'" by simp
    from l1' l12 Cons.prems(7) have ds1: "ds1 = d01 # ds1'" by simp
    from Cons.prems(8) ds ds1 have ag: "agree (beam_size g) bsz j d0 d01"
      and rest: "outputs_agree (beam_size g) bsz j ds' ds1'"
      by (simp_all add: outputs_agree_def)
    from Cons.prems(5) k have mle: "ml ! j = ml1 ! 0" by simp
    from beam_step_agree [OF ag mle] b2 b12 have same: "beams st12 ! 0 = beams st2 ! j" by simp
    from length_beams_decode_step [OF d] have len2: "length (beams st2) = length (beams st)"
      by simp
    from length_beams_decode_step [OF d1] Cons.prems(4) have "length (beams st12) = 1" by simp
    with same have one: "beams st12 = [beams st2 ! j]"
      by (cases "beams st12") auto
    show ?thesis
    proof (rule Cons.IH [OF r r1 _ one Cons.prems(5) l' l1' rest])
      show "j < length (beams st2)" using len2 Cons.prems(3) by simp
    qed
  qed
qed

lemma rvar_nth: "0 < k \<Longrightarrow> j < length xs \<Longrightarrow> rvar k xs ! j = xs ! j"
  by (cases k) (simp_all add: rvar_def nth_append)

lemma make_beam_item:
  assumes "item_of bt j bt1"
  shows "make_beam g mk bt1 p 0 = make_beam g mk bt p j"
  using assms by (auto simp: item_of_def make_beam_def get_bos_def split: sum.splits)

lemma from_beam_lengths:
  assumes "from_beam g bs = Inr r"
  shows "length (predictions r) = length bs" and "length (scores r) = length bs"
    and "length (attention r) = length bs"
proof -
  from assms obtain rs where
    c: "collect (map (from_beam_one (n_best g)) bs) = Inr rs"
    and r: "predictions r = map fst rs" "scores r = map (\<lambda>r. fst (snd r)) rs"
      "attention r = map (\<lambda>r. snd (snd r)) rs"
    by (auto simp: from_beam_def split: sum.splits)
  from collect_Inr [OF c] r
  show "length (predictions r) = length bs" and "length (scores r) = length bs"
    and "length (attention r) = length bs" by simp_all
qed

lemma singleton_nth: "length xs = 1 \<Longrightarrow> xs = [xs ! 0]"
  by (cases xs) auto

text \<open>
  C4, as the code has it. Whenever the run on a batch and the run on its item \<open>j\<close> alone
  both return, and the model's outputs for item \<open>j\<close> in the batched run agree slice by
  slice with its outputs in the single run at every step both take, the predictions,
  scores and attention of item \<open>j\<close> in the batch are those of the single run.
\<close>

theorem batching_agrees:
  assumes "generate_batch g mk bt p = Inr (r :: ('a, 'b, 'c) ret)"
    and "generate_batch g mk bt1 p = Inr (r1 :: ('a, 'b, 'c) ret)"
    and "item_of bt j bt1"
    and "outputs_agree (beam_size g) (batch_size bt) j
           (decodes (trace g mk bt p)) (decodes (trace g mk bt1 p))"
  shows "predictions r1 = [predictions r ! j] \<and> scores r1 = [scores r ! j]
     \<and> attention r1 = [attention r ! j]"
proof -
  from generate_batch_Inr [OF assms(1)] obtain m ml st0 st and q :: "('a, 'b, 'c) ret" where
    P: "prepare g mk bt p = Inr (m, ml, st0)"
    and S: "stepping g (batch_size bt) m ml [0..<max_length g] st0 = Inr st"
    and F: "from_beam g (beams st) = Inr q"
    and rq: "predictions r = predictions q" "scores r = scores q" "attention r = attention q"
    by auto
  from generate_batch_Inr [OF assms(2)] obtain m1 ml1 st01 st1 and q1 :: "('a, 'b, 'c) ret" where
    P1: "prepare g mk bt1 p = Inr (m1, ml1, st01)"
    and S1: "stepping g (batch_size bt1) m1 ml1 [0..<max_length g] st01 = Inr st1"
    and F1: "from_beam g (beams st1) = Inr q1"
    and rq1: "predictions r1 = predictions q1" "scores r1 = scores q1" "attention r1 = attention q1"
    by auto
  from assms(3) have j: "j < batch_size bt" and b1: "batch_size bt1 = 1"
    and jl: "j < length (lengths bt)" and l1: "lengths bt1 = [lengths bt ! j]"
    by (simp_all add: item_of_def)
  note I = init_beams_Inr [OF prepare_Inr [OF P]]
  note I1 = init_beams_Inr [OF prepare_Inr [OF P1]]
  from I(2) [OF j] I1(2) [of 0] b1 make_beam_item [OF assms(3), of g mk p]
  have "beams st01 ! 0 = beams st0 ! j" by simp
  with I1(1) b1 have one: "beams st01 = [beams st0 ! j]"
    by (cases "beams st01") auto
  from I(1) j have jb: "j < length (beams st0)" by simp
  from decodes_prepare [OF P] decodes_prepare [OF P1] jl l1
  have ml: "0 < beam_size g \<longrightarrow> ml ! j = ml1 ! 0"
    and d0: "decodes (log st0) = []" and d01: "decodes (log st01) = []"
    by (simp_all add: rvar_nth)
  from P S have t: "trace g mk bt p = log st" by (simp add: trace_eq)
  from P1 S1 have t1: "trace g mk bt1 p = log st1" by (simp add: trace_eq)
  have fin: "beams st1 = [beams st ! j]"
  proof (rule joint_stepping [OF S S1 [unfolded b1] jb one ml])
    show "decodes (log st) = decodes (log st0) @ decodes (log st)" using d0 by simp
    show "decodes (log st1) = decodes (log st01) @ decodes (log st1)" using d01 by simp
    show "outputs_agree (beam_size g) (batch_size bt) j (decodes (log st)) (decodes (log st1))"
      using assms(4) t t1 by simp
  qed
  from length_beams_stepping [OF S] jb have js: "j < length (beams st)" by simp
  from from_beam_Inr(1) [OF F js]
  have a: "from_beam_one (n_best g) (beams st ! j)
             = Inr (predictions q ! j, scores q ! j, attention q ! j)" .
  from from_beam_Inr(1) [OF F1, of 0] fin
  have b: "from_beam_one (n_best g) (beams st ! j)
             = Inr (predictions q1 ! 0, scores q1 ! 0, attention q1 ! 0)" by simp
  from from_beam_lengths [OF F1] fin
  have "predictions q1 = [predictions q1 ! 0]" "scores q1 = [scores q1 ! 0]"
    "attention q1 = [attention q1 ! 0]"
    by (simp_all add: singleton_nth)
  with a b rq rq1 show ?thesis by simp
qed

text \<open>
  C4, as stated, fails. The item with context bye is done after one step, alone as in
  the batch; the batched outputs agree with the single ones. In a batch with an item
  that needs a second step the loop goes on, the done beam is advanced again, and the
  batched run raises where the single run returns a prediction.
\<close>

theorem batching_counterexample:
  "item_of (ex_batch [None, Some [''bye'']]) 1 (ex_batch [Some [''bye'']])
   \<and> outputs_agree 2 2 1
         (decodes (trace (ex_gen 2 1 4) ex_markers (ex_batch [None, Some [''bye'']]) 1))
         (decodes (trace (ex_gen 2 1 4) ex_markers (ex_batch [Some [''bye'']]) 1))
   \<and> generate_batch (ex_gen 2 1 4) ex_markers (ex_batch [None, Some [''bye'']]) 1
         = Inl ContractViolation
   \<and> (case generate_batch (ex_gen 2 1 4) ex_markers (ex_batch [Some [''bye'']]) 1 of
         Inl e \<Rightarrow> False | Inr r \<Rightarrow> predictions r = [[[2]]])"
  by code_simp

lemma ex_batch_and_item:
  "item_of (ex_batch [Some [''hello''], Some [''bye'']]) 1 (ex_batch [Some [''bye'']])"
  "outputs_agree (beam_size (ex_gen 2 1 4)) (batch_size (ex_batch [Some [''hello''], Some [''bye'']])) 1
     (decodes (trace (ex_gen 2 1 4) ex_markers (ex_batch [Some [''hello''], Some [''bye'']]) 1))
     (decodes (trace (ex_gen 2 1 4) ex_markers (ex_batch [Some [''bye'']]) 1))"
  "case generate_batch (ex_gen 2 1 4) ex_markers (ex_batch [Some [''hello''], Some [''bye'']]) 1 of
     Inl e \<Rightarrow> False | Inr r \<Rightarrow> True"
  "case generate_batch (ex_gen 2 1 4) ex_markers (ex_batch [Some [''bye'']]) 1 of
     Inl e \<Rightarrow> False | Inr r \<Rightarrow> predictions r = [[[2]]]"
  by code_simp+

theorem batching_agrees_witness:
  "\<exists>r r1. generate_batch (ex_gen 2 1 4) ex_markers (ex_batch [Some [''hello''], Some [''bye'']]) 1
             = Inr r
     \<and> generate_batch (ex_gen 2 1 4) ex_markers (ex_batch [Some [''bye'']]) 1 = Inr r1
     \<and> item_of (ex_batch [Some [''hello''], Some [''bye'']]) 1 (ex_batch [Some [''bye'']])
     \<and> predictions r1 = [[[2]]]
     \<and> predictions r1 = [predictions r ! 1] \<and> scores r1 = [scores r ! 1]
     \<and> attention r1 = [attention r ! 1]"
proof -
  from ex_batch_and_item(3) obtain r where
    R: "generate_batch (ex_gen 2 1 4) ex_markers (ex_batch [Some [''hello''], Some [''bye'']]) 1
          = Inr r"
    by (auto split: sum.splits)
  from ex_batch_and_item(4) obtain r1 where
    R1: "generate_batch (ex_gen 2 1 4) ex_markers (ex_batch [Some [''bye'']]) 1 = Inr r1"
    and p1: "predictions r1 = [[[2]]]"
    by (auto split: sum.splits)
  from batching_agrees [OF R R1 ex_batch_and_item(1) ex_batch_and_item(2)]
  have "predictions r1 = [predictions r ! 1] \<and> scores r1 = [scores r ! 1]
     \<and> attention r1 = [attention r ! 1]" .
  with R R1 p1 ex_batch_and_item(1) show ?thesis by blast
qed

subsection \<open>Extraction never fails\<close>

text \<open>The beams keep their shape, so every hypothesis \<^verbatim>\<open>sort_finished\<close> ranks can be
  walked back: once the decoding loop has returned, \<^verbatim>\<open>generate_batch\<close> returns.\<close>

lemma wf_Beam: "wf_beam (Beam sz nb gs pad bos eos ml)"
  by (simp add: wf_beam_def Beam_def)

lemma set_insert_desc [simp]: "set (insert_desc f x xs) = insert x (set xs)"
  by (induction xs) auto

lemma set_foldl_insert_desc:
  "set (foldl (\<lambda>acc x. insert_desc f x acc) acc xs) = set acc \<union> set xs"
  by (induction xs arbitrary: acc) auto

lemma set_sort_desc [simp]: "set (sort_desc f xs) = set xs"
  by (simp add: sort_desc_def set_foldl_insert_desc)

lemma length_concat_rows:
  "(\<And>r. r \<in> set rows \<Longrightarrow> length r = V) \<Longrightarrow> length (concat rows) = length rows * V"
  by (induction rows) auto

lemma wf_advance:
  assumes "wf_beam b" and "advance wp att b = Inr b'"
  shows "wf_beam b' \<and> beam_width b' = beam_width b"
proof -
  define k where "k = beam_width b"
  define V where "V = (case wp of [] \<Rightarrow> 0 | r # _ \<Rightarrow> length r)"
  define wp' where "wp' = (if length (tokens b) < min_length_b b
                  then map (\<lambda>r. r[eos_id b := None]) wp else wp)"
  define prior where "prior = (\<lambda>s. if tokens b \<noteq> [] \<and> last (tokens b) ! s = eos_id b
                          then None else scores_b b ! s)"
  define total where "total = map (\<lambda>s. map (add_score (prior s)) (wp' ! s)) [0..<k]"
  define cand where "cand = (if tokens b = [] then total ! 0 else concat total)"
  define best where "best = take k (sort_desc snd (zip [0..<length cand] cand))"
  define origins where "origins = map (\<lambda>(i, _). i div V) best"
  define toks where "toks = map (\<lambda>(i, _). i mod V) best"
  define fin where "fin = map (\<lambda>s. (length (tokens b) + 1, s,
                           normalized b (map snd best ! s) (length (tokens b) + 1)))
                         (filter (\<lambda>s. toks ! s = eos_id b) [0..<k])"
  have adv: "advance wp att b =
      (if done_b b then Inl ContractViolation
       else if k = 0 \<or> length wp \<noteq> k \<or> length att \<noteq> k \<or> \<not> list_all (\<lambda>r. length r = V) wp
       then Inl ShapeMismatch
       else if length best < k then Inl ShapeMismatch
       else Inr (b\<lparr>tokens := tokens b @ [toks], backpointers := backpointers b @ [origins],
                   scores_b := map snd best,
                   attn_b := attn_b b @ [map (\<lambda>orig. att ! orig) origins],
                   finished := finished b @ fin,
                   eos_top := (eos_top b \<or> toks ! 0 = eos_id b)\<rparr>))"
    unfolding advance_def Let_def k_def V_def wp'_def prior_def total_def cand_def best_def
      origins_def toks_def fin_def
    by simp
  from assms(2) have k: "0 < k" and lw: "length wp = k" and la: "length att = k"
    and rows: "list_all (\<lambda>r. length r = V) wp" and lb: "\<not> length best < k"
    and b': "b' = b\<lparr>tokens := tokens b @ [toks], backpointers := backpointers b @ [origins],
                   scores_b := map snd best,
                   attn_b := attn_b b @ [map (\<lambda>orig. att ! orig) origins],
                   finished := finished b @ fin,
                   eos_top := (eos_top b \<or> toks ! 0 = eos_id b)\<rparr>"
    unfolding adv by (auto split: if_splits)
  have lbest: "length best = k" using lb by (simp add: best_def)
  have rows': "\<And>s. s < k \<Longrightarrow> length (wp' ! s) = V"
    using rows lw by (auto simp: wp'_def list_all_length)
  have ltot: "\<And>r. r \<in> set total \<Longrightarrow> length r = V"
    using rows' by (auto simp: total_def)
  have lcand: "length cand \<le> k * V"
  proof (cases "tokens b = []")
    case True
    with k rows' [of 0] have "length cand = V" by (simp add: cand_def total_def)
    with k show ?thesis by (cases k) simp_all
  next
    case False
    with length_concat_rows [of total V] ltot show ?thesis by (simp add: cand_def total_def)
  qed
  have orig: "\<And>s. s < k \<Longrightarrow> origins ! s < k"
  proof -
    fix s assume s: "s < k"
    with lbest have "best ! s \<in> set best" by simp
    then have "best ! s \<in> set (zip [0..<length cand] cand)"
      by (auto simp: best_def dest: in_set_takeD)
    then have "fst (best ! s) < length cand" by (auto simp: in_set_zip)
    with lcand have "fst (best ! s) < k * V" by simp
    then have "fst (best ! s) div V < k" by (rule less_mult_imp_div_less)
    with s lbest show "origins ! s < k" by (simp add: origins_def case_prod_beta)
  qed
  from assms(1) have w: "length (backpointers b) = length (tokens b)"
    "length (attn_b b) = length (tokens b)"
    "\<And>t. t < length (tokens b) \<Longrightarrow>
           length (tokens b ! t) = k \<and> length (backpointers b ! t) = k
           \<and> length (attn_b b ! t) = k
           \<and> (\<forall>s < k. backpointers b ! t ! s < k)"
    "\<And>t s sc. (t, s, sc) \<in> set (finished b) \<Longrightarrow> t \<le> length (tokens b) \<and> s < k"
    by (auto simp: wf_beam_def k_def)
  have bw: "beam_width b' = k" by (simp add: b' k_def)
  have "wf_beam b'"
    unfolding wf_beam_def bw
  proof (intro conjI allI impI)
    show "length (backpointers b') = length (tokens b')" using w(1) by (simp add: b')
    show "length (attn_b b') = length (tokens b')" using w(2) by (simp add: b')
    show "length (scores_b b') = k" using lbest by (simp add: b')
  next
    fix t assume t: "t < length (tokens b')"
    show "length (tokens b' ! t) = k"
      using t w(3) [of t] lbest by (cases "t < length (tokens b)") (auto simp: b' nth_append toks_def)
    show "length (backpointers b' ! t) = k"
      using t w(1) w(3) [of t] lbest
      by (cases "t < length (tokens b)") (auto simp: b' nth_append origins_def)
    show "length (attn_b b' ! t) = k"
      using t w(2) w(3) [of t] lbest
      by (cases "t < length (tokens b)") (auto simp: b' nth_append origins_def)
    fix s assume s: "s < k"
    show "backpointers b' ! t ! s < k"
    proof (cases "t < length (tokens b)")
      case True
      with w(1) w(3) [of t] s show ?thesis by (simp add: b' nth_append)
    next
      case False
      with t have "t = length (tokens b)" by (simp add: b')
      with w(1) orig [OF s] show ?thesis by (simp add: b' nth_append)
    qed
  next
    show "\<forall>(t, s, sc)\<in>set (finished b'). t \<le> length (tokens b') \<and> s < k"
    proof (clarify)
      fix t s sc assume "(t, s, sc) \<in> set (finished b')"
      then have "(t, s, sc) \<in> set (finished b) \<or> (t = length (tokens b) + 1 \<and> s < k)"
        by (auto simp: b' fin_def)
      with w(4) [of t s sc] show "t \<le> length (tokens b') \<and> s < k" by (auto simp: b')
    qed
  qed
  with bw show ?thesis by (simp add: k_def)
qed

lemma get_hyp_wf:
  "wf_beam b \<Longrightarrow> t \<le> length (tokens b) \<Longrightarrow> s < beam_width b \<Longrightarrow> get_hyp b t s \<noteq> None"
proof (induction t arbitrary: s)
  case 0
  then show ?case by simp
next
  case (Suc t)
  from Suc.prems have t: "t < length (tokens b)" by simp
  with Suc.prems(1,3) have
    "length (backpointers b) = length (tokens b)" "length (attn_b b) = length (tokens b)"
    "length (tokens b ! t) = beam_width b" "length (backpointers b ! t) = beam_width b"
    "length (attn_b b ! t) = beam_width b" "backpointers b ! t ! s < beam_width b"
    by (auto simp: wf_beam_def)
  moreover from this Suc.IH [OF Suc.prems(1), of "backpointers b ! t ! s"] t
  have "get_hyp b t (backpointers b ! t ! s) \<noteq> None" by simp
  ultimately show ?case using t Suc.prems(3) by (auto split: option.splits)
qed

lemma collect_all_Inr:
  "(\<And>x. x \<in> set xs \<Longrightarrow> \<exists>v. x = Inr v) \<Longrightarrow> \<exists>vs. collect xs = Inr vs"
proof (induction xs)
  case Nil
  then show ?case by simp
next
  case (Cons x xs)
  from Cons.prems [of x] obtain v where "x = Inr v" by auto
  moreover from Cons.IH Cons.prems obtain vs where "collect xs = Inr vs" by auto
  ultimately show ?case by simp
qed

lemma live_slots_less: "s \<in> set (live_slots b) \<Longrightarrow> s < beam_width b"
  by (auto simp: live_slots_def)

lemma from_beam_one_wf:
  assumes "wf_beam b"
  shows "\<exists>x. from_beam_one nb b = Inr x"
proof -
  obtain scs ks where sf: "sort_finished nb b = (scs, ks)" by (cases "sort_finished nb b") auto
  have valid: "\<And>t s. (t, s) \<in> set ks \<Longrightarrow> t \<le> length (tokens b) \<and> s < beam_width b"
  proof -
    fix t s assume "(t, s) \<in> set ks"
    with sf have
      "(\<exists>sc. (t, s, sc) \<in> set (finished b))
       \<or> (t = length (tokens b) \<and> s \<in> set (take (nb - length (finished b)) (live_slots b)))"
      by (auto simp: sort_finished_def Let_def)
    then show "t \<le> length (tokens b) \<and> s < beam_width b"
    proof
      assume "\<exists>sc. (t, s, sc) \<in> set (finished b)"
      with assms show ?thesis by (auto simp: wf_beam_def)
    next
      assume "t = length (tokens b) \<and> s \<in> set (take (nb - length (finished b)) (live_slots b))"
      then show ?thesis by (auto dest!: in_set_takeD live_slots_less)
    qed
  qed
  have "\<exists>hs. collect (map (\<lambda>(times, k). case get_hyp b times k of None \<Rightarrow> Inl IndexError
                                      | Some h \<Rightarrow> Inr h) (take nb ks)) = Inr hs"
  proof (rule collect_all_Inr)
    fix x assume "x \<in> set (map (\<lambda>(times, k). case get_hyp b times k of None \<Rightarrow> Inl IndexError
                                      | Some h \<Rightarrow> Inr h) (take nb ks))"
    then obtain t s where ts: "(t, s) \<in> set ks"
      and x: "x = (case get_hyp b t s of None \<Rightarrow> Inl IndexError | Some h \<Rightarrow> Inr h)"
      by (auto dest!: in_set_takeD)
    from get_hyp_wf [OF assms] valid [OF ts] have "get_hyp b t s \<noteq> None" by simp
    with x show "\<exists>v. x = Inr v" by (auto split: option.splits)
  qed
  with sf show ?thesis by (auto simp: from_beam_one_def)
qed

lemma from_beam_wf:
  assumes "list_all wf_beam bs"
  shows "\<exists>r. from_beam g bs = Inr r"
proof -
  have "\<exists>rs. collect (map (from_beam_one (n_best g)) bs) = Inr rs"
  proof (rule collect_all_Inr)
    fix x assume "x \<in> set (map (from_beam_one (n_best g)) bs)"
    with assms from_beam_one_wf show "\<exists>v. x = Inr v" by (auto simp: list_all_iff)
  qed
  then show ?thesis by (auto simp: from_beam_def)
qed

lemma wf_replay_item:
  "wf_beam b \<Longrightarrow> wf_beam (replay_item k bsz ml j ds b)"
proof (induction ds arbitrary: b)
  case Nil
  then show ?case by simp
next
  case (Cons d ds)
  show ?case
  proof (cases "beam_step k bsz ml j d b")
    case (Inl e)
    with Cons.prems show ?thesis by simp
  next
    case (Inr b')
    with wf_advance [OF Cons.prems] have "wf_beam b'" by (simp add: beam_step_def)
    from Cons.IH [OF this] Inr show ?thesis by simp
  qed
qed

lemma make_beam_wf: "make_beam g mk bt p j = Inr b \<Longrightarrow> wf_beam b"
  by (auto simp: make_beam_def wf_Beam split: sum.splits)

lemma generate_batch_returns:
  assumes "prepare g mk (bt :: ('a, 'b, 'c) batch) p = Inr (m, ml, st0)"
    and "stepping g (batch_size bt) m ml [0..<max_length g] st0 = Inr st"
  shows "\<exists>r. generate_batch g mk bt p = Inr r"
proof -
  note I = init_beams_Inr [OF prepare_Inr [OF assms(1)]]
  from beams_stepping [OF assms(2)] obtain ds where
    b: "\<forall>j<length (beams st0). beams st ! j
          = replay_item (beam_size g) (batch_size bt) ml j ds (beams st0 ! j)"
    by blast
  have "list_all wf_beam (beams st)"
    unfolding list_all_length
  proof (intro allI impI)
    fix j assume "j < length (beams st)"
    with length_beams_stepping [OF assms(2)] have j: "j < length (beams st0)" by simp
    with I have "wf_beam (beams st0 ! j)" by (auto intro: make_beam_wf)
    with b j show "wf_beam (beams st ! j)" by (simp add: wf_replay_item)
  qed
  from from_beam_wf [OF this, of g] obtain r0 :: "('a, 'b, 'c) ret" where
    "from_beam g (beams st) = Inr r0" by blast
  with assms show ?thesis
    by (simp add: generate_batch_def generate_batch_run_def)
qed

end
